theory Spec2Isabelle
  imports Complex_Main
begin

section \<open>Conventions of the embedding\<close>

text \<open>
  The theory embeds \<^verbatim>\<open>src/python/fastpitch1_1/fastpitch.py\<close>: the length regulator
  \<^verbatim>\<open>regulate_len\<close>, the interval averager \<^verbatim>\<open>average_pitch\<close>, the duration check of
  \<^verbatim>\<open>FastPitch.forward\<close>, and the inference entry points \<^verbatim>\<open>infer_using_vals\<close> and
  \<^verbatim>\<open>infer_advanced\<close>.

  \<^item> A tensor is a nested list: a batch is the outer list, the innermost list runs over
    the last axis. Tensors are rectangular by construction; nested lists are not, so the
    theorems state the shapes they rely on.
  \<^item> Floating-point numbers are idealised as \<^typ>\<open>real\<close>: rounding error, overflow and the
    absorbing behaviour of NaN in arithmetic are outside the model. The one place where the
    source computes a quotient with a zero divisor on purpose (\<^verbatim>\<open>average_pitch\<close>) keeps the
    non-finite outcome as a value of its own, \<^term>\<open>None :: real option\<close>.
  \<^item> A raised exception is a value \<^term>\<open>Inl e\<close> of a sum type.
\<close>

datatype error =
    RuntimeError          \<comment> \<open>raised by torch: shape mismatch, index out of range, empty reduction\<close>
  | IndexError            \<comment> \<open>raised by list/array indexing\<close>
  | AttributeError        \<comment> \<open>a method called on \<^verbatim>\<open>None\<close>\<close>
  | UnboundLocalError     \<comment> \<open>a local variable read before any assignment\<close>
  | AssertionError        \<comment> \<open>a failed \<^verbatim>\<open>assert\<close>\<close>
  | NonFinite             \<comment> \<open>no exception: an infinity or NaN reached an integer conversion,
                              whose result torch leaves unspecified\<close>

subsection \<open>Tensor primitives\<close>

text \<open>\<^verbatim>\<open>x.long()\<close> on a float: truncation towards zero.\<close>

definition torch_long :: "real \<Rightarrow> int" where
  "torch_long x = (if 0 \<le> x then \<lfloor>x\<rfloor> else \<lceil>x\<rceil>)"

text \<open>\<^verbatim>\<open>torch.cumsum\<close> along the last axis: running sums, same length as the input.\<close>

fun cumsum_from :: "'a::monoid_add \<Rightarrow> 'a list \<Rightarrow> 'a list" where
  "cumsum_from acc [] = []"
| "cumsum_from acc (x # xs) = (acc + x) # cumsum_from (acc + x) xs"

definition cumsum :: "'a::monoid_add list \<Rightarrow> 'a list" where
  "cumsum xs = cumsum_from 0 xs"

text \<open>\<^verbatim>\<open>t.max()\<close> over all entries of a one-dimensional tensor; torch raises on an empty one.\<close>

definition tensor_max :: "int list \<Rightarrow> error + int" where
  "tensor_max xs = (case xs of [] \<Rightarrow> Inl RuntimeError | x # ys \<Rightarrow> Inr (fold max ys x))"

section \<open>Length regulator\<close>

text \<open>
  \<^verbatim>\<open>
  def regulate_len(durations, enc_out, pace: float = 1.0, mel_max_len: Optional[int] = None):
      dtype = enc_out.dtype
      reps = durations.float() / pace
      reps = (reps + 0.5).long()
      dec_lens = reps.sum(dim=1)

      max_len = dec_lens.max()
      reps_cumsum = torch.cumsum(F.pad(reps, (1, 0, 0, 0), value=0.0), dim=1)[:, None, :]
      reps_cumsum = reps_cumsum.to(dtype)

      range_ = torch.arange(max_len).to(enc_out.device)[None, :, None]
      mult = ((reps_cumsum[:, :, :-1] <= range_) &
              (reps_cumsum[:, :, 1:] > range_))
      mult = mult.to(dtype)
      enc_rep = torch.matmul(mult, enc_out)

      if mel_max_len is not None:
          enc_rep = enc_rep[:, :mel_max_len]
          dec_lens = torch.clamp_max(dec_lens, mel_max_len)
      return enc_rep, dec_lens
  \<close>
  \<^verbatim>\<open>durations\<close> has shape (batch, tokens), \<^verbatim>\<open>enc_out\<close> has shape (batch, tokens, D).
\<close>

text \<open>The adjusted duration of one token: \<^verbatim>\<open>(durations.float() / pace + 0.5).long()\<close>.\<close>

definition adjust :: "real \<Rightarrow> real \<Rightarrow> int" where
  "adjust pace d = torch_long (d / pace + 1 / 2)"

text \<open>
  One row of \<^verbatim>\<open>mult\<close>: entry \<open>j\<close> of frame \<open>t\<close> compares \<^verbatim>\<open>reps_cumsum[:, :, :-1]\<close> (entry \<open>j\<close>
  of the padded running sums) and \<^verbatim>\<open>reps_cumsum[:, :, 1:]\<close> (entry \<open>j + 1\<close>) with \<open>t\<close>.
\<close>

definition mult_row :: "int list \<Rightarrow> nat \<Rightarrow> bool list" where
  "mult_row cs t = map (\<lambda>j. cs ! j \<le> int t \<and> cs ! (j + 1) > int t) [0..<length cs - 1]"

text \<open>
  The feature dimension D of one sample of \<^verbatim>\<open>enc_out\<close>. A sample without tokens carries no
  vector to read it from; it then has no frames either, so the value is not used.
\<close>

definition feat_dim :: "real list list \<Rightarrow> nat" where
  "feat_dim enc = (case enc of [] \<Rightarrow> 0 | v # _ \<Rightarrow> length v)"

text \<open>
  \<^verbatim>\<open>torch.matmul(mult, enc_out)\<close> for one sample and one frame: the 0/1 row \<open>ms\<close> (tokens)
  times the matrix \<open>enc\<close> (tokens by D).
\<close>

definition matmul_row :: "bool list \<Rightarrow> real list list \<Rightarrow> real list" where
  "matmul_row ms enc =
     map (\<lambda>d. \<Sum>j\<leftarrow>[0..<length enc]. of_bool (ms ! j) * (enc ! j ! d)) [0..<feat_dim enc]"

text \<open>
  The shapes \<^verbatim>\<open>torch.matmul\<close> accepts here: the same batch size and, in each sample, as many
  feature vectors as durations. (Broadcasting of a batch of size one is not modelled: every
  caller passes both tensors from the same batch.)
\<close>

definition matmul_shapes :: "int list list \<Rightarrow> real list list list \<Rightarrow> bool" where
  "matmul_shapes reps enc_out = list_all2 (\<lambda>r e. length r = length e) reps enc_out"

definition regulate_len ::
  "real list list \<Rightarrow> real list list list \<Rightarrow> real \<Rightarrow> nat option
     \<Rightarrow> error + (real list list list \<times> int list)" where
  "regulate_len durations enc_out pace mel_max_len =
     (if pace = 0 then Inl NonFinite
      else
        let reps = map (map (adjust pace)) durations;
            dec_lens = map sum_list reps
        in case tensor_max dec_lens of
             Inl e \<Rightarrow> Inl e
           | Inr max_len \<Rightarrow>
               if max_len < 0 then Inl RuntimeError \<comment> \<open>\<^verbatim>\<open>torch.arange\<close> of a negative bound\<close>
               else if \<not> matmul_shapes reps enc_out then Inl RuntimeError
               else
                 let reps_cumsum = map (\<lambda>r. cumsum (0 # r)) reps;
                     arange = [0..<nat max_len]; \<comment> \<open>\<^verbatim>\<open>range_\<close>\<close>
                     mult = map (\<lambda>cs. map (mult_row cs) arange) reps_cumsum;
                     enc_rep = map2 (\<lambda>m enc. map (\<lambda>ms. matmul_row ms enc) m) mult enc_out
                 in case mel_max_len of
                      None \<Rightarrow> Inr (enc_rep, dec_lens)
                    | Some cap \<Rightarrow>
                        Inr (map (take cap) enc_rep, map (\<lambda>l. min l (int cap)) dec_lens))"

text \<open>
  One sample of \<^verbatim>\<open>enc_rep\<close> before the cap is applied: frame \<open>t\<close> is row \<open>t\<close> of that sample's
  \<^verbatim>\<open>mult\<close> times its features, for the \<open>n\<close> frames of \<^verbatim>\<open>range_\<close>.
\<close>

definition frames_of :: "real \<Rightarrow> nat \<Rightarrow> real list \<Rightarrow> real list list \<Rightarrow> real list list" where
  "frames_of pace n ds enc =
     map (\<lambda>t. matmul_row (mult_row (cumsum (0 # map (adjust pace) ds)) t) enc) [0..<n]"

section \<open>Interval averager\<close>

text \<open>
  \<^verbatim>\<open>
  def average_pitch(pitch, durs):
      durs_cums_ends = torch.cumsum(durs, dim=1).long()
      durs_cums_starts = F.pad(durs_cums_ends[:, :-1], (1, 0))
      pitch_nonzero_cums = F.pad(torch.cumsum(pitch != 0.0, dim=2), (1, 0))
      pitch_cums = F.pad(torch.cumsum(pitch, dim=2), (1, 0))

      bs, l = durs_cums_ends.size()
      n_formants = pitch.size(1)
      dcs = durs_cums_starts[:, None, :].expand(bs, n_formants, l)
      dce = durs_cums_ends[:, None, :].expand(bs, n_formants, l)

      pitch_sums = (torch.gather(pitch_cums, 2, dce)
                    - torch.gather(pitch_cums, 2, dcs)).float()
      pitch_nelems = (torch.gather(pitch_nonzero_cums, 2, dce)
                      - torch.gather(pitch_nonzero_cums, 2, dcs)).float()

      pitch_avg = torch.where(pitch_nelems == 0.0, pitch_nelems, pitch_sums / pitch_nelems)
      return pitch_avg
  \<close>
  \<^verbatim>\<open>pitch\<close> has shape (batch, channels, frames), \<^verbatim>\<open>durs\<close> has shape (batch, tokens) and holds
  integer frame counts, so \<^verbatim>\<open>.long()\<close> changes no value and \<^verbatim>\<open>durs\<close> is a list of
  \<^typ>\<open>int\<close> rows here.
\<close>

text \<open>
  \<^verbatim>\<open>torch.gather(src, 2, index)\<close> where \<^verbatim>\<open>index\<close> is a (batch, tokens) tensor expanded over the
  channel axis: entry \<open>(b, c, j)\<close> of the result is \<open>src[b][c][index[b][j]]\<close>. torch raises
  when the index has more samples than the source or when an index lies outside
  \<open>0 \<le> i < size\<close> of the gathered axis (negative indices are not wrapped).
\<close>

definition gathered :: "'a list list list \<Rightarrow> int list list \<Rightarrow> 'a list list list" where
  "gathered src index = map2 (\<lambda>chs ix. map (\<lambda>row. map (\<lambda>i. row ! nat i) ix) chs) src index"

definition gather :: "'a list list list \<Rightarrow> int list list \<Rightarrow> error + 'a list list list" where
  "gather src index =
     (if length index \<le> length src \<and>
         list_all (\<lambda>(chs, ix). list_all (\<lambda>row. list_all (\<lambda>i. 0 \<le> i \<and> i < int (length row)) ix) chs)
           (zip src index)
      then Inr (gathered src index)
      else Inl RuntimeError)"

text \<open>An elementwise binary operation on two tensors of the same three-dimensional shape.\<close>

definition pointwise3 ::
  "('a \<Rightarrow> 'b \<Rightarrow> 'c) \<Rightarrow> 'a list list list \<Rightarrow> 'b list list list \<Rightarrow> 'c list list list" where
  "pointwise3 f xs ys = map2 (map2 (map2 f)) xs ys"

text \<open>
  \<^verbatim>\<open>expand(bs, n_formants, l)\<close> repeats the index rows over the channel axis, which
  \<^const>\<open>gather\<close> does itself here. \<^verbatim>\<open>F.pad\<close> gives the starts one entry even for a sample
  without tokens; expanded to \<open>l\<close> entries they are the first \<open>l\<close> of them.

  The last line for one entry: \<^verbatim>\<open>torch.where\<close> evaluates both alternatives for every entry and
  then selects. The quotient by a zero count is NaN or an infinity (\<^term>\<open>None\<close>).
\<close>

definition float_div :: "real \<Rightarrow> real \<Rightarrow> real option" where
  "float_div x y = (if y = 0 then None else Some (x / y))"

definition where_avg :: "real \<Rightarrow> real \<Rightarrow> real option" where
  "where_avg pitch_sum pitch_nelem =
     (let quotient = float_div pitch_sum pitch_nelem
      in if pitch_nelem = 0 then Some pitch_nelem else quotient)"

definition average_pitch ::
  "real list list list \<Rightarrow> int list list \<Rightarrow> error + real option list list list" where
  "average_pitch pitch durs =
     (let durs_cums_ends = map cumsum durs;
          durs_cums_starts = map (\<lambda>e. 0 # butlast e) durs_cums_ends;
          pitch_nonzero_cums =
            map (map (\<lambda>row. (0::int) # cumsum (map (\<lambda>x. if x \<noteq> 0 then 1 else 0) row))) pitch;
          pitch_cums = map (map (\<lambda>row. (0::real) # cumsum row)) pitch;
          dcs = map2 (\<lambda>s e. take (length e) s) durs_cums_starts durs_cums_ends;
          dce = durs_cums_ends
      in case gather pitch_cums dce of Inl e \<Rightarrow> Inl e | Inr sums_e \<Rightarrow>
         case gather pitch_cums dcs of Inl e \<Rightarrow> Inl e | Inr sums_s \<Rightarrow>
         case gather pitch_nonzero_cums dce of Inl e \<Rightarrow> Inl e | Inr nelems_e \<Rightarrow>
         case gather pitch_nonzero_cums dcs of Inl e \<Rightarrow> Inl e | Inr nelems_s \<Rightarrow>
           let pitch_sums = pointwise3 (\<lambda>a b. a - b) sums_e sums_s;
               pitch_nelems = pointwise3 (\<lambda>a b. real_of_int (a - b)) nelems_e nelems_s
           in Inr (pointwise3 where_avg pitch_sums pitch_nelems))"

text \<open>
  The contract of the averager in the words of the specification, to compare the source
  with: the arithmetic mean of the signal over the \<open>dur\<close> frames from frame \<open>start\<close> on,
  counting only the frames whose value is not zero, and 0 if there is no such frame.
\<close>

definition interval_mean :: "real list \<Rightarrow> nat \<Rightarrow> nat \<Rightarrow> real" where
  "interval_mean signal start dur =
     (let voiced = filter (\<lambda>x. x \<noteq> 0) (take dur (drop start signal))
      in if voiced = [] then 0 else sum_list voiced / real (length voiced))"

section \<open>Training pass: target durations and their check\<close>

text \<open>
  \<^verbatim>\<open>
  attn_hard = self.binarize_attention_parallel(attn_soft, input_lens, mel_lens)

  # Viterbi --> durations
  attn_hard_dur = attn_hard.sum(2)[:, 0, :]
  dur_tgt = attn_hard_dur

  assert torch.all(torch.eq(dur_tgt.sum(dim=1), mel_lens))
  \<close>
  \<^verbatim>\<open>attn_hard\<close> has shape (batch, 1, frames, tokens); the unit axis that \<^verbatim>\<open>[:, 0, :]\<close> removes
  is left out, so a sample is a list of frame rows. The alignment search \<^verbatim>\<open>b_mas\<close> that
  produces \<^verbatim>\<open>attn_hard\<close> is not part of the source file; the hard alignment is an argument.
\<close>

text \<open>
  \<^verbatim>\<open>a.sum(2)\<close> for one sample: the sum over the frame axis, one entry per token. (For a
  sample without frames the list is empty instead of a row of zeros; its sum is 0 either
  way.)
\<close>

definition sum_frames :: "real list list \<Rightarrow> real list" where
  "sum_frames rows = map sum_list (transpose rows)"

text \<open>
  \<^verbatim>\<open>torch.eq\<close> on two one-dimensional tensors, with broadcasting of a tensor of size one.
\<close>

definition torch_eq :: "real list \<Rightarrow> real list \<Rightarrow> error + bool list" where
  "torch_eq xs ys =
     (if length xs = length ys then Inr (map2 (\<lambda>x y. x = y) xs ys)
      else if length xs = 1 then Inr (map (\<lambda>y. hd xs = y) ys)
      else if length ys = 1 then Inr (map (\<lambda>x. x = hd ys) xs)
      else Inl RuntimeError)"

text \<open>Lines 205 to 212 of \<^verbatim>\<open>FastPitch.forward\<close>: the result is \<^verbatim>\<open>dur_tgt\<close>.\<close>

definition forward_dur_tgt :: "real list list list \<Rightarrow> int list \<Rightarrow> error + real list list" where
  "forward_dur_tgt attn_hard mel_lens =
     (let attn_hard_dur = map sum_frames attn_hard;
          dur_tgt = attn_hard_dur
      in case torch_eq (map sum_list dur_tgt) (map real_of_int mel_lens) of
           Inl e \<Rightarrow> Inl e
         | Inr eqs \<Rightarrow> if list_all (\<lambda>b. b) eqs then Inr dur_tgt else Inl AssertionError)"

section \<open>Inference\<close>

text \<open>
  The network modules (\<^verbatim>\<open>FFTransformer\<close>, \<^verbatim>\<open>TemporalPredictor\<close> over \<^verbatim>\<open>ConvReLUNorm\<close>, the
  embedding convolutions) are defined outside the source file. They are parameters of the
  model, taken as total functions. \<^typ>\<open>'e\<close> is the encoder output together with its mask.
  Inference runs on a batch of one sample with one pitch channel (the source reads row
  \<^verbatim>\<open>[0]\<close> of every array), so a per-token array is a list.
\<close>

record 'e modules =
  encoder :: "int list \<Rightarrow> int option \<Rightarrow> 'e"
    \<comment> \<open>\<^verbatim>\<open>self.encoder(inputs, conditioning=spk_emb)\<close>, the speaker embedding included\<close>
  duration_predictor :: "'e \<Rightarrow> real list"
    \<comment> \<open>\<^verbatim>\<open>self.duration_predictor(enc_out, enc_mask).squeeze(-1)\<close>\<close>
  pitch_predictor :: "'e \<Rightarrow> real list"
    \<comment> \<open>\<^verbatim>\<open>self.pitch_predictor(enc_out, enc_mask).permute(0, 2, 1)\<close>\<close>
  energy_predictor :: "'e \<Rightarrow> real list"
    \<comment> \<open>\<^verbatim>\<open>self.energy_predictor(enc_out, enc_mask).squeeze(-1)\<close>\<close>
  add_pitch_emb :: "'e \<Rightarrow> real list \<Rightarrow> 'e"
    \<comment> \<open>\<^verbatim>\<open>enc_out + self.pitch_emb(pitch_pred).transpose(1, 2)\<close>\<close>

text \<open>
  What \<^verbatim>\<open>infer_using_vals\<close> returns, without \<^verbatim>\<open>mel_out\<close> and \<^verbatim>\<open>dec_lens\<close>: these come from the
  last stage (\<^verbatim>\<open>energy_emb\<close>, \<^verbatim>\<open>regulate_len\<close>, decoder, projection), which changes none of
  the five values below.
\<close>

record inference =
  out_dur_pred :: "real list"
  out_pitch_pred :: "real list"
  out_energy_pred :: "real list"
  out_start_index :: int
  out_end_index :: int

subsection \<open>Indexing\<close>

text \<open>
  Reading and writing \<^verbatim>\<open>xs[i]\<close> on a list or array of \<open>n\<close> entries: the positions
  \<open>0 \<le> i < n\<close> are read as they are, the positions \<open>- n \<le> i < 0\<close> count from the end, and
  any other position raises.
\<close>

definition wrap_index :: "nat \<Rightarrow> int \<Rightarrow> nat option" where
  "wrap_index n i =
     (if 0 \<le> i \<and> i < int n then Some (nat i)
      else if - int n \<le> i \<and> i < 0 then Some (nat (int n + i))
      else None)"

definition py_get :: "'a list \<Rightarrow> int \<Rightarrow> error + 'a" where
  "py_get xs i =
     (case wrap_index (length xs) i of None \<Rightarrow> Inl IndexError | Some j \<Rightarrow> Inr (xs ! j))"

definition py_set :: "'a list \<Rightarrow> int \<Rightarrow> 'a \<Rightarrow> error + 'a list" where
  "py_set xs i v =
     (case wrap_index (length xs) i of None \<Rightarrow> Inl IndexError | Some j \<Rightarrow> Inr (xs[j := v]))"

subsection \<open>Splice bounds\<close>

text \<open>
  The scanning loop shared by both bounds:
  \<^verbatim>\<open>
  for i in range(len(old_sequence_np)):
      if i<len(new_sequence_np):
          if old_sequence_np[i]!=new_sequence_np[i]:
              ... = f(i)
              break
      else:
          ... = f(i)
          break
  \<close>
  \<^term>\<open>Some i\<close> is the index at which the loop breaks, \<^term>\<open>None\<close> means it ran to the end.
\<close>

function first_change :: "int list \<Rightarrow> int list \<Rightarrow> nat \<Rightarrow> nat option" where
  "first_change old new i =
     (if i < length old then
        (if i < length new then
           (if old ! i \<noteq> new ! i then Some i else first_change old new (Suc i))
         else Some i)
      else None)"
  by pat_completeness auto
termination
  by (relation "measure (\<lambda>(old, new, i). length old - i)") auto

declare first_change.simps [simp del]

text \<open>
  \<^verbatim>\<open>
  if old_sequence_np[0]==new_sequence_np[0]:
      for i ...: start_index = i-1; break
      if start_index is None:
          start_index = len(old_sequence_np)-1

  old_sequence_np.reverse()
  new_sequence_np.reverse()
  if old_sequence_np[0]==new_sequence_np[0]:
      for i ...: end_index = len(old_sequence_np)-1-i+1; break
  \<close>
  Reading element 0 of an empty list raises.
\<close>

definition splice_bounds :: "int list \<Rightarrow> int list \<Rightarrow> error + (int option \<times> int option)" where
  "splice_bounds old_sequence_np new_sequence_np =
     (if old_sequence_np = [] \<or> new_sequence_np = [] then Inl IndexError
      else
        let start_index =
              (if hd old_sequence_np = hd new_sequence_np then
                 (case first_change old_sequence_np new_sequence_np 0 of
                    Some i \<Rightarrow> Some (int i - 1)
                  | None \<Rightarrow> Some (int (length old_sequence_np) - 1))
               else None);
            old_rev = rev old_sequence_np;
            new_rev = rev new_sequence_np;
            end_index =
              (if hd old_rev = hd new_rev then
                 (case first_change old_rev new_rev 0 of
                    Some i \<Rightarrow> Some (int (length old_rev) - 1 - int i + 1)
                  | None \<Rightarrow> None)
               else None)
        in Inr (start_index, end_index))"

subsection \<open>Own predictions\<close>

text \<open>
  \<^verbatim>\<open>torch.clamp(x, min, max)\<close> is \<^verbatim>\<open>min(max(x, min), max)\<close> (with \<^verbatim>\<open>min > max\<close> every entry
  becomes \<^verbatim>\<open>max\<close>); \<^verbatim>\<open>torch.clamp(x, min)\<close> has no upper bound.
\<close>

definition torch_clamp :: "real \<Rightarrow> real \<Rightarrow> real \<Rightarrow> real" where
  "torch_clamp x lo hi = min (max x lo) hi"

definition torch_clamp_min :: "real \<Rightarrow> real \<Rightarrow> real" where
  "torch_clamp_min x lo = max x lo"

text \<open>
  \<^verbatim>\<open>
  log_dur_pred = self.duration_predictor(pred_enc_out, pred_enc_mask).squeeze(-1)
  dur_pred = torch.clamp(torch.exp(log_dur_pred) - 1, 0, max_duration)
  dur_pred = torch.clamp(dur_pred, 0.25)
  pitch_pred = self.pitch_predictor(enc_out, enc_mask).permute(0, 2, 1)
  pitch_pred = torch.clamp(pitch_pred, min=-3, max=3)
  \<close>
\<close>

definition predict_dur :: "'e modules \<Rightarrow> 'e \<Rightarrow> real \<Rightarrow> real list" where
  "predict_dur m enc_out max_duration =
     (let log_dur_pred = duration_predictor m enc_out;
          dur_pred = map (\<lambda>x. torch_clamp (exp x - 1) 0 max_duration) log_dur_pred
      in map (\<lambda>x. torch_clamp_min x (1 / 4)) dur_pred)"

definition predict_pitch :: "'e modules \<Rightarrow> 'e \<Rightarrow> real list" where
  "predict_pitch m enc_out = map (\<lambda>x. torch_clamp x (- 3) 3) (pitch_predictor m enc_out)"

subsection \<open>Splicing\<close>

text \<open>
  One replacement loop over one array: \<^verbatim>\<open>pred_np[i] = existing_np[i]\<close> for each index of the
  list, in order; the first index out of range raises.
\<close>

fun splice :: "int list \<Rightarrow> real list \<Rightarrow> real list \<Rightarrow> error + real list" where
  "splice [] pred_np existing_np = Inr pred_np"
| "splice (i # idx) pred_np existing_np =
     (case py_get existing_np i of
        Inl e \<Rightarrow> Inl e
      | Inr v \<Rightarrow>
          (case py_set pred_np i v of
             Inl e \<Rightarrow> Inl e
           | Inr pred_np' \<Rightarrow> splice idx pred_np' existing_np))"

text \<open>
  The indices of the two loops: \<^verbatim>\<open>for i in range(start_index+1)\<close> writes index \<open>i\<close>,
  \<^verbatim>\<open>for i in range(len(old_sequence_np)-end_index)\<close> writes index \<open>-i-1\<close>.
\<close>

definition front_indices :: "int option \<Rightarrow> int list" where
  "front_indices start_index =
     (case start_index of None \<Rightarrow> [] | Some s \<Rightarrow> map int [0..<nat (s + 1)])"

definition back_indices :: "nat \<Rightarrow> int option \<Rightarrow> int list" where
  "back_indices len_old end_index =
     (case end_index of None \<Rightarrow> []
      | Some e \<Rightarrow> map (\<lambda>i. - int i - 1) [0..<nat (int len_old - e)])"

definition splice_both ::
  "nat \<Rightarrow> int option \<Rightarrow> int option \<Rightarrow> real list \<Rightarrow> real list \<Rightarrow> error + real list" where
  "splice_both len_old start_index end_index pred_np existing_np =
     (case splice (front_indices start_index) pred_np existing_np of
        Inl e \<Rightarrow> Inl e
      | Inr pred_np' \<Rightarrow> splice (back_indices len_old end_index) pred_np' existing_np)"

subsection \<open>The two entry points\<close>

text \<open>
  \<^verbatim>\<open>infer_using_vals\<close> of the source, lines 253 to 397, for a plugin manager with no plugin
  registered at the two hooks (both \<^verbatim>\<open>len(plugin_manager.plugins[...][...])\<close> are 0).
  \<^verbatim>\<open>pace\<close> only reaches \<^verbatim>\<open>regulate_len\<close> in the last stage and is not an argument here.

  \<^item> \<^verbatim>\<open>old_sequence\<close> and \<^verbatim>\<open>new_sequence\<close> are the single rows of token ids; calling
    \<^verbatim>\<open>.cpu()\<close> on \<^verbatim>\<open>None\<close> raises.
  \<^item> The local \<^verbatim>\<open>energy_pred\<close> is \<^term>\<open>None\<close> here while the source has not assigned it;
    line 388 reads it and raises if it is still unassigned.
  \<^item> The source replaces duration and pitch inside the same loop. Every failure of that
    loop is an \<^verbatim>\<open>IndexError\<close> and discards both arrays, so the two arrays are spliced one
    after the other here.
\<close>

definition infer_using_vals ::
  "'e modules \<Rightarrow> 'e \<Rightarrow> real \<Rightarrow> real list option \<Rightarrow> real list option \<Rightarrow> real list option
     \<Rightarrow> int list option \<Rightarrow> int list option \<Rightarrow> error + inference" where
  "infer_using_vals m enc_out max_duration dur_pred_existing pitch_pred_existing
       energy_pred_existing old_sequence new_sequence =
     (case (case old_sequence of
              None \<Rightarrow> Inr (None, None)
            | Some old_np \<Rightarrow>
                (case new_sequence of
                   None \<Rightarrow> Inl AttributeError
                 | Some new_np \<Rightarrow> splice_bounds old_np new_np)) of
        Inl e \<Rightarrow> Inl e
      | Inr (start_index, end_index) \<Rightarrow>
          let len_old = (case old_sequence of None \<Rightarrow> 0 | Some old_np \<Rightarrow> length old_np);
              own = ((dur_pred_existing = None \<or> pitch_pred_existing = None)
                       \<or> old_sequence \<noteq> None);
              dur_pred = (if own then predict_dur m enc_out max_duration
                          else the dur_pred_existing);
              pitch_pred = (if own then predict_pitch m enc_out else the pitch_pred_existing);
              energy_pred = (if own then None else energy_pred_existing);
              spliced = (start_index \<noteq> None \<or> end_index \<noteq> None)
          in
          case (if spliced then
                  (case dur_pred_existing of
                     None \<Rightarrow> Inl AttributeError
                   | Some dur_existing_np \<Rightarrow>
                       (case pitch_pred_existing of
                          None \<Rightarrow> Inl AttributeError
                        | Some pitch_existing_np \<Rightarrow>
                            (case splice_both len_old start_index end_index
                                    dur_pred dur_existing_np of
                               Inl e \<Rightarrow> Inl e
                             | Inr dur_pred_np \<Rightarrow>
                                 (case splice_both len_old start_index end_index
                                         pitch_pred pitch_existing_np of
                                    Inl e \<Rightarrow> Inl e
                                  | Inr pitch_pred_np \<Rightarrow>
                                      Inr (dur_pred_np, pitch_pred_np,
                                           Some (energy_predictor m
                                                   (add_pitch_emb m enc_out pitch_pred_np)))))))
                else Inr (dur_pred, pitch_pred, energy_pred)) of
            Inl e \<Rightarrow> Inl e
          | Inr (dur_pred, pitch_pred, energy_pred) \<Rightarrow>
              let enc_out' = add_pitch_emb m enc_out pitch_pred
              in
              case (case energy_pred_existing of
                      None \<Rightarrow> Inr (energy_predictor m enc_out')
                    | Some energy_existing_np \<Rightarrow>
                        (case energy_pred of
                           None \<Rightarrow> Inl UnboundLocalError
                         | Some energy_pred_np \<Rightarrow>
                             if spliced then
                               splice_both len_old start_index end_index
                                 energy_pred_np energy_existing_np
                             else Inr energy_pred_np)) of
                Inl e \<Rightarrow> Inl e
              | Inr energy_pred \<Rightarrow>
                  Inr \<lparr>out_dur_pred = dur_pred, out_pitch_pred = pitch_pred,
                       out_energy_pred = energy_pred,
                       out_start_index = (case start_index of None \<Rightarrow> - 1 | Some s \<Rightarrow> s),
                       out_end_index = (case end_index of None \<Rightarrow> - 1 | Some e \<Rightarrow> e)\<rparr>)"

text \<open>
  \<^verbatim>\<open>
  if (pitch_data is not None) and (pitch_data[0] is not None and len(pitch_data[0]))
     and (pitch_data[1] is not None and len(pitch_data[1]))
     and (pitch_data[2] is not None and len(pitch_data[2])):
  \<close>
  \<^verbatim>\<open>pitch_data\<close> is a triple of optional arrays, in the order pitch, duration, energy.
\<close>

type_synonym pitch_data = "(real list option \<times> real list option \<times> real list option) option"

definition present :: "real list option \<Rightarrow> bool" where
  "present a = (a \<noteq> None \<and> length (the a) \<noteq> 0)"

definition use_pitch_data :: "pitch_data \<Rightarrow> bool" where
  "use_pitch_data pitch_data =
     (pitch_data \<noteq> None \<and> present (fst (the pitch_data))
        \<and> present (fst (snd (the pitch_data))) \<and> present (snd (snd (the pitch_data))))"

text \<open>
  \<^verbatim>\<open>
  enc_out, enc_mask = self.encoder(inputs, conditioning=spk_emb)
  if <condition above>:
      pitch_pred, dur_pred, energy_pred = pitch_data
      ...
      try:
          return self.infer_using_vals(..., dur_pred_existing=dur_pred,
              pitch_pred_existing=pitch_pred, energy_pred_existing=energy_pred,
              old_sequence=old_sequence, new_sequence=inputs)
      except:
          print(traceback.format_exc())
          logger.info(traceback.format_exc())
          return self.infer_using_vals(..., None, None, None, None, None)
  else:
      return self.infer_using_vals(..., None, None, None, None, None)
  \<close>
  The bare \<^verbatim>\<open>except\<close> catches every exception of the first call. Printing and logging are
  outside the model.
\<close>

definition infer_advanced ::
  "'e modules \<Rightarrow> int list \<Rightarrow> int option \<Rightarrow> pitch_data \<Rightarrow> real \<Rightarrow> int list option
     \<Rightarrow> error + inference" where
  "infer_advanced m inputs speaker_i pitch_data max_duration old_sequence =
     (let enc_out = encoder m inputs speaker_i
      in if use_pitch_data pitch_data then
           let pitch_pred = fst (the pitch_data);
               dur_pred = fst (snd (the pitch_data));
               energy_pred = snd (snd (the pitch_data))
           in case infer_using_vals m enc_out max_duration dur_pred pitch_pred energy_pred
                     old_sequence (Some inputs) of
                Inr r \<Rightarrow> Inr r
              | Inl e \<Rightarrow> infer_using_vals m enc_out max_duration None None None None None
         else infer_using_vals m enc_out max_duration None None None None None)"

subsection \<open>A concrete network\<close>

text \<open>
  For evaluating the definitions on concrete inputs: modules whose predictors return fixed
  arrays, over a trivial encoder output.
\<close>

definition const_modules :: "real list \<Rightarrow> real list \<Rightarrow> real list \<Rightarrow> unit modules" where
  "const_modules log_dur pitch energy =
     \<lparr>encoder = (\<lambda>_ _. ()), duration_predictor = (\<lambda>_. log_dur),
      pitch_predictor = (\<lambda>_. pitch), energy_predictor = (\<lambda>_. energy),
      add_pitch_emb = (\<lambda>enc _. enc)\<rparr>"

section \<open>Properties of the length regulator\<close>

subsection \<open>Running sums and the selection matrix\<close>

lemma length_cumsum_from [simp]: "length (cumsum_from a xs) = length xs"
  by (induction xs arbitrary: a) simp_all

lemma nth_cumsum_from:
  "i < length xs \<Longrightarrow> cumsum_from a xs ! i = a + sum_list (take (Suc i) xs)"
proof (induction xs arbitrary: a i)
  case Nil
  then show ?case by simp
next
  case (Cons x xs)
  show ?case
  proof (cases i)
    case 0
    then show ?thesis by simp
  next
    case (Suc k)
    with Cons.prems have "k < length xs" by simp
    from Cons.IH [OF this, of "a + x"] Suc show ?thesis
      by (simp add: add.assoc)
  qed
qed

lemma length_cumsum [simp]: "length (cumsum xs) = length xs"
  by (simp add: cumsum_def)

lemma nth_cumsum: "i < length xs \<Longrightarrow> cumsum xs ! i = sum_list (take (Suc i) xs)"
  by (simp add: cumsum_def nth_cumsum_from)

lemma nth_cumsum_pad:
  "j \<le> length r \<Longrightarrow> cumsum (0 # r) ! j = sum_list (take j r)"
  by (simp add: nth_cumsum)

lemma length_mult_row [simp]: "length (mult_row (cumsum (0 # r)) t) = length r"
  by (simp add: mult_row_def)

lemma nth_mult_row:
  "j < length r \<Longrightarrow>
     mult_row (cumsum (0 # r)) t ! j \<longleftrightarrow>
       (sum_list (take j r) \<le> int t \<and> int t < sum_list (take (Suc j) r))"
  by (simp add: mult_row_def nth_cumsum_pad del: upt_Suc)

lemma prefix_sum_mono:
  fixes r :: "int list"
  assumes "\<forall>x\<in>set r. 0 \<le> x" and "i \<le> j"
  shows "sum_list (take i r) \<le> sum_list (take j r)"
proof -
  have "take j r = take i r @ take (j - i) (drop i r)"
    using assms(2) by (metis le_add_diff_inverse take_add)
  moreover have "0 \<le> sum_list (take (j - i) (drop i r))"
    using assms(1) by (intro sum_list_nonneg) (auto dest!: in_set_takeD in_set_dropD)
  ultimately show ?thesis by simp
qed

lemma interval_exists:
  fixes r :: "int list"
  assumes "\<forall>x\<in>set r. 0 \<le> x" and "0 \<le> t" and "t < sum_list r"
  shows "\<exists>j<length r. sum_list (take j r) \<le> t \<and> t < sum_list (take (Suc j) r)"
  using assms
proof (induction r rule: rev_induct)
  case Nil
  then show ?case by simp
next
  case (snoc x xs)
  show ?case
  proof (cases "t < sum_list xs")
    case True
    with snoc obtain j where "j < length xs" "sum_list (take j xs) \<le> t"
      "t < sum_list (take (Suc j) xs)" by auto
    then show ?thesis by (intro exI [of _ j]) simp
  next
    case False
    with snoc.prems show ?thesis by (intro exI [of _ "length xs"]) simp
  qed
qed

lemma interval_unique:
  fixes r :: "int list"
  assumes nonneg: "\<forall>x\<in>set r. 0 \<le> x"
    and i: "sum_list (take i r) \<le> t" "t < sum_list (take (Suc i) r)"
    and j: "sum_list (take j r) \<le> t" "t < sum_list (take (Suc j) r)"
  shows "i = j"
proof (rule ccontr)
  assume "i \<noteq> j"
  then consider "Suc i \<le> j" | "Suc j \<le> i" by linarith
  then show False
  proof cases
    case 1
    from prefix_sum_mono [OF nonneg this] i j show False by linarith
  next
    case 2
    from prefix_sum_mono [OF nonneg this] i j show False by linarith
  qed
qed

subsection \<open>One frame of one sample\<close>

lemma sum_list_select:
  fixes g :: "nat \<Rightarrow> real"
  assumes "j < n" and "\<forall>k<n. P k \<longleftrightarrow> k = j"
  shows "(\<Sum>k\<leftarrow>[0..<n]. of_bool (P k) * g k) = g j"
proof -
  have "(\<Sum>k\<leftarrow>[0..<n]. of_bool (P k) * g k) = (\<Sum>k\<in>{0..<n}. of_bool (P k) * g k)"
    by (simp add: interv_sum_list_conv_sum_set_nat)
  also have "\<dots> = (\<Sum>k\<in>{0..<n}. if k = j then g k else 0)"
    using assms(2) by (intro sum.cong) auto
  also have "\<dots> = g j"
    using assms(1) by simp
  finally show ?thesis .
qed

lemma sum_list_none:
  fixes g :: "nat \<Rightarrow> real"
  assumes "\<forall>k<n. \<not> P k"
  shows "(\<Sum>k\<leftarrow>[0..<n]. of_bool (P k) * g k) = 0"
proof -
  have "(\<Sum>k\<leftarrow>[0..<n]. of_bool (P k) * g k) = (\<Sum>k\<in>{0..<n}. of_bool (P k) * g k)"
    by (simp add: interv_sum_list_conv_sum_set_nat)
  also have "\<dots> = (\<Sum>k\<in>{0..<n}. 0)"
    using assms by (intro sum.cong) auto
  finally show ?thesis by simp
qed

lemma matmul_row_select:
  assumes "j < length enc" and "\<forall>k<length enc. ms ! k \<longleftrightarrow> k = j"
    and "length (enc ! j) = feat_dim enc"
  shows "matmul_row ms enc = enc ! j"
proof -
  have "matmul_row ms enc = map (\<lambda>d. enc ! j ! d) [0..<feat_dim enc]"
    unfolding matmul_row_def
    using sum_list_select [OF assms(1), of "\<lambda>k. ms ! k"] assms(2) by simp
  also have "\<dots> = enc ! j"
    using assms(3) by (metis map_nth)
  finally show ?thesis .
qed

lemma matmul_row_zero:
  assumes "\<forall>k<length enc. \<not> ms ! k"
  shows "matmul_row ms enc = replicate (feat_dim enc) 0"
  unfolding matmul_row_def
  using sum_list_none [of "length enc" "\<lambda>k. ms ! k"] assms
  by (simp add: map_replicate_const)

lemma frame_inside:
  assumes nonneg: "\<forall>x\<in>set r. 0 \<le> x" and len: "length enc = length r"
    and dims: "\<forall>v\<in>set enc. length v = D"
    and t: "int t < sum_list r"
  shows "\<exists>j<length r. sum_list (take j r) \<le> int t \<and> int t < sum_list (take (Suc j) r)
           \<and> matmul_row (mult_row (cumsum (0 # r)) t) enc = enc ! j"
proof -
  from interval_exists [OF nonneg _ t] obtain j where j: "j < length r"
    "sum_list (take j r) \<le> int t" "int t < sum_list (take (Suc j) r)" by auto
  have only: "\<forall>k<length enc. mult_row (cumsum (0 # r)) t ! k \<longleftrightarrow> k = j"
  proof (intro allI impI)
    fix k assume k: "k < length enc"
    show "mult_row (cumsum (0 # r)) t ! k \<longleftrightarrow> k = j"
      using k len j interval_unique [OF nonneg _ _ j(2,3), of k]
      by (auto simp: nth_mult_row)
  qed
  have "enc \<noteq> []" using j(1) len by auto
  then have "feat_dim enc = D"
    using dims by (cases enc) (auto simp: feat_dim_def)
  moreover have "length (enc ! j) = D"
    using dims j(1) len by simp
  ultimately have "matmul_row (mult_row (cumsum (0 # r)) t) enc = enc ! j"
    using matmul_row_select [of j enc "mult_row (cumsum (0 # r)) t"] only j(1) len by simp
  with j show ?thesis by blast
qed

lemma frame_outside:
  assumes nonneg: "\<forall>x\<in>set r. 0 \<le> x" and len: "length enc = length r"
    and t: "sum_list r \<le> int t"
  shows "matmul_row (mult_row (cumsum (0 # r)) t) enc = replicate (feat_dim enc) 0"
proof (rule matmul_row_zero, intro allI impI)
  fix k assume k: "k < length enc"
  have "sum_list (take (Suc k) r) \<le> sum_list (take (length r) r)"
    using k len by (intro prefix_sum_mono [OF nonneg]) simp
  with t have "\<not> int t < sum_list (take (Suc k) r)" by simp
  then show "\<not> mult_row (cumsum (0 # r)) t ! k"
    using k len by (simp add: nth_mult_row)
qed

subsection \<open>The result on well-shaped input\<close>

lemma tensor_max_Max:
  assumes "xs \<noteq> []"
  shows "tensor_max xs = Inr (Max (set xs))"
proof (cases xs)
  case Nil
  with assms show ?thesis by simp
next
  case (Cons x ys)
  have "fold max ys x = Max (set (x # ys))"
    by (rule Max.set_eq_fold [symmetric])
  with Cons show ?thesis by (simp add: tensor_max_def)
qed

lemma matmul_shapes_iff:
  "matmul_shapes reps enc_out \<longleftrightarrow>
     length reps = length enc_out \<and> (\<forall>b<length reps. length (reps ! b) = length (enc_out ! b))"
  by (simp add: matmul_shapes_def list_all2_conv_all_nth)

lemma regulate_len_result:
  assumes pace: "pace \<noteq> 0" and batch: "durations \<noteq> []"
    and shape: "length enc_out = length durations"
      "\<forall>b<length durations. length (enc_out ! b) = length (durations ! b)"
    and M: "M = Max (set (map (\<lambda>ds. sum_list (map (adjust pace) ds)) durations))" "0 \<le> M"
  shows "regulate_len durations enc_out pace mel_max_len =
     Inr (case mel_max_len of
            None \<Rightarrow> map2 (frames_of pace (nat M)) durations enc_out
          | Some cap \<Rightarrow> map (take cap) (map2 (frames_of pace (nat M)) durations enc_out),
          case mel_max_len of
            None \<Rightarrow> map (\<lambda>ds. sum_list (map (adjust pace) ds)) durations
          | Some cap \<Rightarrow>
              map (\<lambda>ds. min (sum_list (map (adjust pace) ds)) (int cap)) durations)"
proof -
  let ?reps = "map (map (adjust pace)) durations"
  have lens: "map sum_list ?reps = map (\<lambda>ds. sum_list (map (adjust pace) ds)) durations"
    by simp
  have max: "tensor_max (map sum_list ?reps) = Inr M"
    using batch M(1) by (simp add: tensor_max_Max o_def)
  have pace0: "(pace = 0) = False" using pace by simp
  have Mneg: "(M < 0) = False" using M(2) by simp
  have shapes: "matmul_shapes ?reps enc_out = True"
    using shape by (simp add: matmul_shapes_iff)
  have frames: "map2 (\<lambda>m enc. map (\<lambda>ms. matmul_row ms enc) m)
           (map (\<lambda>cs. map (mult_row cs) [0..<nat M]) (map (\<lambda>r. cumsum (0 # r)) ?reps)) enc_out
        = map2 (frames_of pace (nat M)) durations enc_out"
    using shape(1)
    by (intro nth_equalityI) (simp_all add: frames_of_def o_def)
  have "regulate_len durations enc_out pace mel_max_len =
          (case mel_max_len of
             None \<Rightarrow> Inr (map2 (frames_of pace (nat M)) durations enc_out, map sum_list ?reps)
           | Some cap \<Rightarrow>
               Inr (map (take cap) (map2 (frames_of pace (nat M)) durations enc_out),
                    map (\<lambda>l. min l (int cap)) (map sum_list ?reps)))"
    unfolding regulate_len_def Let_def
    by (simp only: pace0 max Mneg shapes frames sum.case if_False not_True_eq_False)
  then show ?thesis
    by (cases mel_max_len) (simp_all add: o_def)
qed

lemma adjust_round:
  assumes "0 \<le> d" and "0 < pace"
  shows "adjust pace d = round (d / pace)"
proof -
  have "0 \<le> d / pace + 1 / 2" using assms by simp
  then show ?thesis by (simp add: adjust_def torch_long_def round_def)
qed

lemma adjust_nonneg:
  assumes "0 \<le> d" and "0 < pace"
  shows "0 \<le> adjust pace d"
proof -
  have "0 \<le> d / pace + 1 / 2" using assms by simp
  then show ?thesis by (simp add: adjust_def torch_long_def)
qed

lemma Max_min_commute:
  fixes S :: "int set"
  assumes "finite S" and "S \<noteq> {}"
  shows "Max ((\<lambda>l. min l c) ` S) = min (Max S) c"
  using mono_Max_commute [of "\<lambda>l. min l c" S] assms
  by (simp add: mono_def min.coboundedI1)

lemma length_frames_of [simp]: "length (frames_of pace n ds enc) = n"
  by (simp add: frames_of_def)

lemma nth_frames_of:
  "t < n \<Longrightarrow> frames_of pace n ds enc ! t =
     matmul_row (mult_row (cumsum (0 # map (adjust pace) ds)) t) enc"
  by (simp add: frames_of_def)

lemma adjust_large_pace:
  assumes "0 \<le> d" and "2 * d < pace"
  shows "adjust pace d = 0"
proof -
  have "0 < pace" using assms by linarith
  then have "0 \<le> d / pace" "d / pace < 1 / 2"
    using assms by (simp_all add: field_simps)
  then have "0 \<le> d / pace + 1 / 2" "d / pace + 1 / 2 < 1" by linarith+
  then have "\<lfloor>d / pace + 1 / 2\<rfloor> = 0" by linarith
  then show ?thesis
    using \<open>0 \<le> d / pace + 1 / 2\<close> by (simp add: adjust_def torch_long_def)
qed

lemmas regulate_defs =
  regulate_len_def adjust_def torch_long_def tensor_max_def cumsum_def matmul_shapes_def
  mult_row_def matmul_row_def feat_dim_def Let_def eval_nat_numeral

subsection \<open>The claims about the regulator\<close>

text \<open>
  C4. For non-negative durations and a positive pace the adjusted duration is the duration
  divided by the pace and rounded to the nearest integer (halves upwards; it differs from
  the quotient by at most one half). For one sample of two tokens with durations 2 and 3 and
  feature vectors \<open>v0\<close> and \<open>v1\<close>, pace 1 gives output length 5 with \<open>v0\<close> in the first two
  frames and \<open>v1\<close> in the next three; pace 2 rounds the durations to 1 and 2 and gives output
  length 3.
\<close>

theorem regulate_len_worked_example:
  assumes "0 \<le> d" and "0 < pace" and "length v0 = length v1"
  shows "adjust pace d = round (d / pace)
       \<and> \<bar>real_of_int (adjust pace d) - d / pace\<bar> \<le> 1 / 2
       \<and> regulate_len [[2, 3]] [[v0, v1]] 1 None = Inr ([[v0, v0, v1, v1, v1]], [5])
       \<and> map (adjust 2) [2, 3] = [1, 2]
       \<and> regulate_len [[2, 3]] [[v0, v1]] 2 None = Inr ([[v0, v1, v1]], [3])"
proof -
  have r: "adjust pace d = round (d / pace)"
    using assms(1,2) by (rule adjust_round)
  have n0: "map (\<lambda>k. v0 ! k) [0..<length v0] = v0" by (rule map_nth)
  have n1: "map (\<lambda>k. v1 ! k) [0..<length v0] = v1"
    unfolding assms(3) by (rule map_nth)
  have a: "adjust 1 2 = 2" "adjust 1 3 = 3" "adjust 2 2 = 1" "adjust 2 3 = 2"
    by (simp_all add: adjust_def torch_long_def)
  have e1: "regulate_len [[2, 3]] [[v0, v1]] 1 None = Inr ([[v0, v0, v1, v1, v1]], [5])"
    by (simp add: regulate_len_def a tensor_max_def cumsum_def matmul_shapes_def mult_row_def
        matmul_row_def feat_dim_def Let_def eval_nat_numeral n0 n1)
  have e2: "regulate_len [[2, 3]] [[v0, v1]] 2 None = Inr ([[v0, v1, v1]], [3])"
    by (simp add: regulate_len_def a tensor_max_def cumsum_def matmul_shapes_def mult_row_def
        matmul_row_def feat_dim_def Let_def eval_nat_numeral n0 n1)
  show ?thesis
    using r a e1 e2 of_int_round_abs_le [of "d / pace"] by simp
qed

text \<open>The instance of C4 with the feature vectors \<open>[1, 2]\<close> and \<open>[3, 4]\<close>.\<close>

theorem regulate_len_worked_example_witness:
  "adjust 2 3 = 2 \<and> round (3 / 2 :: real) = 2 \<and> map (adjust 2) [2, 3] = [1, 2]
   \<and> regulate_len [[2, 3]] [[[1, 2], [3, 4]]] 1 None =
        Inr ([[[1, 2], [1, 2], [3, 4], [3, 4], [3, 4]]], [5])
   \<and> regulate_len [[2, 3]] [[[1, 2], [3, 4]]] 2 None = Inr ([[[1, 2], [3, 4], [3, 4]]], [3])"
proof -
  have d: "(0 :: real) \<le> 3" and pace: "(0 :: real) < 2"
    and dims: "length [1, 2 :: real] = length [3, 4 :: real]"
    by simp_all
  from regulate_len_worked_example [OF d pace dims] show ?thesis
    by (simp add: adjust_def torch_long_def)
qed

text \<open>
  C8. On a batch of matching shapes and with a pace other than zero, \<^verbatim>\<open>regulate_len\<close> returns
  a result (it raises nothing) whenever some sample's adjusted durations are all 0, and the
  output length it reports for that sample is 0. Lemma \<open>adjust_large_pace\<close> shows that a pace
  above twice a duration adjusts it to 0.
\<close>

theorem regulate_len_zero_sample:
  assumes pace: "pace \<noteq> 0"
    and shape: "length enc_out = length durations"
      "\<forall>b<length durations. length (enc_out ! b) = length (durations ! b)"
    and b: "b < length durations"
    and zero: "\<forall>d\<in>set (durations ! b). adjust pace d = 0"
  shows "\<exists>enc_rep dec_lens.
     regulate_len durations enc_out pace mel_max_len = Inr (enc_rep, dec_lens)
     \<and> length dec_lens = length durations \<and> dec_lens ! b = 0"
proof -
  define tot where "tot = (\<lambda>ds. sum_list (map (adjust pace) ds))"
  define M where "M = Max (set (map tot durations))"
  have batch: "durations \<noteq> []" using b by auto
  have "map (adjust pace) (durations ! b) = replicate (length (durations ! b)) 0"
    using zero by (intro replicate_eqI) auto
  then have tot0: "tot (durations ! b) = 0" by (simp add: tot_def sum_list_replicate)
  have "tot (durations ! b) \<le> M"
    unfolding M_def using b by (intro Max_ge) auto
  with tot0 have M0: "0 \<le> M" by simp
  have res: "regulate_len durations enc_out pace mel_max_len =
     Inr (case mel_max_len of
            None \<Rightarrow> map2 (frames_of pace (nat M)) durations enc_out
          | Some cap \<Rightarrow> map (take cap) (map2 (frames_of pace (nat M)) durations enc_out),
          case mel_max_len of
            None \<Rightarrow> map tot durations
          | Some cap \<Rightarrow> map (\<lambda>ds. min (tot ds) (int cap)) durations)"
    unfolding tot_def
    using pace batch shape M0
    by (intro regulate_len_result) (auto simp: M_def tot_def)
  show ?thesis
    unfolding res using b tot0 by (cases mel_max_len) simp_all
qed

text \<open>
  The instance of C8 at pace 100: the first sample's durations 2 and 3 are adjusted to 0, the
  second sample keeps one frame.
\<close>

theorem regulate_len_zero_sample_witness:
  "adjust 100 2 = 0 \<and> adjust 100 3 = 0
   \<and> regulate_len [[2, 3], [40, 60]] [[[1, 2], [3, 4]], [[5, 6], [7, 8]]] 100 None =
       Inr ([[[0, 0]], [[7, 8]]], [0, 1])"
proof -
  let ?durations = "[[2, 3], [40, 60 :: real]]"
  let ?enc_out = "[[[1, 2], [3, 4]], [[5, 6], [7, 8 :: real]]]"
  have pace: "(100 :: real) \<noteq> 0" by simp
  have batch: "length ?enc_out = length ?durations" by simp
  have tokens: "\<forall>b<length ?durations. length (?enc_out ! b) = length (?durations ! b)"
    by (simp add: less_Suc_eq eval_nat_numeral)
  have b: "0 < length ?durations" by simp
  have zero: "\<forall>d\<in>set (?durations ! 0). adjust 100 d = 0"
    by (simp add: adjust_def torch_long_def)
  from regulate_len_zero_sample [OF pace batch tokens b zero, of None]
  have "\<exists>enc_rep dec_lens.
     regulate_len ?durations ?enc_out 100 None = Inr (enc_rep, dec_lens)
     \<and> length dec_lens = length ?durations \<and> dec_lens ! 0 = 0" .
  moreover have "regulate_len ?durations ?enc_out 100 None = Inr ([[[0, 0]], [[7, 8]]], [0, 1])"
    by (simp add: regulate_defs)
  ultimately show ?thesis
    by (simp add: adjust_def torch_long_def)
qed

text \<open>
  C10. For a non-empty batch of \<open>L\<close> tokens per sample with feature vectors of dimension \<open>D\<close>,
  non-negative durations and a positive pace, with or without a cap \<^verbatim>\<open>mel_max_len\<close>:
  \<^verbatim>\<open>regulate_len\<close> returns one output length per sample (the sum of the adjusted durations,
  clamped to the cap) and one frame list per sample, each with as many frames as the largest
  output length of the batch. A frame below its sample's output length lies in the
  cumulative-duration interval of exactly one token and equals that token's feature vector;
  a frame at or beyond the output length is the zero vector.
\<close>

theorem regulate_len_frames:
  assumes pace: "0 < pace" and batch: "durations \<noteq> []"
    and shape: "length enc_out = length durations"
      "\<forall>b<length durations. length (durations ! b) = L \<and> length (enc_out ! b) = L
          \<and> (\<forall>v\<in>set (enc_out ! b). length v = D)"
    and nonneg: "\<forall>ds\<in>set durations. \<forall>d\<in>set ds. 0 \<le> d"
  shows "\<exists>enc_rep dec_lens.
     regulate_len durations enc_out pace mel_max_len = Inr (enc_rep, dec_lens)
     \<and> length enc_rep = length durations \<and> length dec_lens = length durations
     \<and> (\<forall>b<length durations.
          dec_lens ! b =
            (case mel_max_len of
               None \<Rightarrow> sum_list (map (adjust pace) (durations ! b))
             | Some cap \<Rightarrow> min (sum_list (map (adjust pace) (durations ! b))) (int cap))
          \<and> length (enc_rep ! b) = nat (Max (set dec_lens))
          \<and> (\<forall>t<length (enc_rep ! b).
               (int t < dec_lens ! b \<longrightarrow>
                  (\<exists>!j. j < L
                     \<and> sum_list (take j (map (adjust pace) (durations ! b))) \<le> int t
                     \<and> int t < sum_list (take (Suc j) (map (adjust pace) (durations ! b))))
                  \<and> (\<forall>j<L. sum_list (take j (map (adjust pace) (durations ! b))) \<le> int t
                          \<and> int t < sum_list (take (Suc j) (map (adjust pace) (durations ! b)))
                       \<longrightarrow> enc_rep ! b ! t = enc_out ! b ! j))
               \<and> (dec_lens ! b \<le> int t \<longrightarrow> enc_rep ! b ! t = replicate D 0)))"
proof -
  define tot where "tot = (\<lambda>ds. sum_list (map (adjust pace) ds))"
  define M where "M = Max (set (map tot durations))"
  define raw where "raw = map2 (frames_of pace (nat M)) durations enc_out"
  define B where "B = length durations"
  have reps_nonneg: "\<forall>x\<in>set (map (adjust pace) (durations ! b)). 0 \<le> x" if "b < B" for b
    using nonneg pace that by (auto simp: B_def intro!: adjust_nonneg)
  have tot_nonneg: "0 \<le> tot (durations ! b)" if "b < B" for b
    unfolding tot_def using reps_nonneg [OF that] by (intro sum_list_nonneg) auto
  have tot_le: "tot (durations ! b) \<le> M" if "b < B" for b
    unfolding M_def using that by (intro Max_ge) (auto simp: B_def)
  have M_in: "M \<in> set (map tot durations)"
    unfolding M_def using batch by (intro Max_in) auto
  then obtain b0 where b0: "b0 < B" "M = tot (durations ! b0)"
    by (auto simp: in_set_conv_nth B_def)
  have M0: "0 \<le> M" using tot_nonneg [OF b0(1)] b0(2) by simp
  have L_pos: "0 < L" if "0 < M"
  proof (rule ccontr)
    assume "\<not> 0 < L"
    then have "durations ! b0 = []" using shape(2) b0(1) by (auto simp: B_def)
    then show False using that b0(2) by (simp add: tot_def)
  qed
  define rep where
    "rep = (case mel_max_len of None \<Rightarrow> raw | Some cap \<Rightarrow> map (take cap) raw)"
  define lens where
    "lens = (case mel_max_len of None \<Rightarrow> map tot durations
             | Some cap \<Rightarrow> map (\<lambda>ds. min (tot ds) (int cap)) durations)"
  have res: "regulate_len durations enc_out pace mel_max_len = Inr (rep, lens)"
    unfolding rep_def lens_def raw_def tot_def
    using pace batch shape M0
    by (intro regulate_len_result) (auto simp: M_def tot_def)
  have raw_len: "length raw = B" using shape(1) by (simp add: raw_def B_def)
  have raw_nth: "raw ! b = frames_of pace (nat M) (durations ! b) (enc_out ! b)" if "b < B" for b
    using that shape(1) by (simp add: raw_def B_def)
  have inside: "(\<exists>!j. j < L
                     \<and> sum_list (take j (map (adjust pace) (durations ! b))) \<le> int t
                     \<and> int t < sum_list (take (Suc j) (map (adjust pace) (durations ! b))))
                  \<and> (\<forall>j<L. sum_list (take j (map (adjust pace) (durations ! b))) \<le> int t
                          \<and> int t < sum_list (take (Suc j) (map (adjust pace) (durations ! b)))
                       \<longrightarrow> raw ! b ! t = enc_out ! b ! j)"
    if b: "b < B" and t: "t < nat M" "int t < tot (durations ! b)" for b t
  proof -
    let ?r = "map (adjust pace) (durations ! b)"
    have len: "length (enc_out ! b) = length ?r" "length ?r = L"
      and dims: "\<forall>v\<in>set (enc_out ! b). length v = D"
      using shape(2) b by (auto simp: B_def)
    from frame_inside [OF reps_nonneg [OF b] len(1) dims] t(2)
    obtain j where j: "j < L" "sum_list (take j ?r) \<le> int t" "int t < sum_list (take (Suc j) ?r)"
      "matmul_row (mult_row (cumsum (0 # ?r)) t) (enc_out ! b) = enc_out ! b ! j"
      using len(2) by (auto simp: tot_def)
    have uniq: "k = j" if "sum_list (take k ?r) \<le> int t" "int t < sum_list (take (Suc k) ?r)" for k
      using interval_unique [OF reps_nonneg [OF b] that j(2,3)] .
    have "raw ! b ! t = enc_out ! b ! j"
      using raw_nth [OF b] t(1) j(4) by (simp add: nth_frames_of)
    with j uniq show ?thesis by blast
  qed
  have outside: "raw ! b ! t = replicate D 0"
    if b: "b < B" and t: "t < nat M" "tot (durations ! b) \<le> int t" for b t
  proof -
    let ?r = "map (adjust pace) (durations ! b)"
    have len: "length (enc_out ! b) = length ?r" "length (enc_out ! b) = L"
      and dims: "\<forall>v\<in>set (enc_out ! b). length v = D"
      using shape(2) b by (auto simp: B_def)
    from t(1) have "0 < M" by simp
    then have "enc_out ! b \<noteq> []" using L_pos len(2) by auto
    then have "feat_dim (enc_out ! b) = D"
      using dims by (cases "enc_out ! b") (auto simp: feat_dim_def)
    with frame_outside [OF reps_nonneg [OF b] len(1)] t(2)
    have "matmul_row (mult_row (cumsum (0 # ?r)) t) (enc_out ! b) = replicate D 0"
      by (simp add: tot_def)
    then show ?thesis
      using raw_nth [OF b] t(1) by (simp add: nth_frames_of)
  qed
  have rep_len: "length rep = B"
    using raw_len by (simp add: rep_def split: option.splits)
  have lens_len: "length lens = B"
    by (simp add: lens_def B_def split: option.splits)
  have lens_nth: "lens ! b =
            (case mel_max_len of
               None \<Rightarrow> sum_list (map (adjust pace) (durations ! b))
             | Some cap \<Rightarrow> min (sum_list (map (adjust pace) (durations ! b))) (int cap))"
    if "b < B" for b
    using that by (simp add: lens_def B_def tot_def split: option.splits)
  have max: "Max (set lens) = (case mel_max_len of None \<Rightarrow> M | Some cap \<Rightarrow> min M (int cap))"
  proof (cases mel_max_len)
    case None
    then show ?thesis by (simp add: lens_def M_def)
  next
    case (Some cap)
    have "set (map (\<lambda>ds. min (tot ds) (int cap)) durations)
            = (\<lambda>l. min l (int cap)) ` set (map tot durations)"
      by (simp add: image_image)
    moreover have "Max ((\<lambda>l. min l (int cap)) ` set (map tot durations)) = min M (int cap)"
      unfolding M_def using batch by (intro Max_min_commute) simp_all
    ultimately show ?thesis using Some by (simp add: lens_def)
  qed
  have rep_nth_len: "length (rep ! b) = nat (Max (set lens))" if "b < B" for b
  proof (cases mel_max_len)
    case None
    then show ?thesis using that raw_len raw_nth [OF that] max by (simp add: rep_def)
  next
    case (Some cap)
    have "nat (min M (int cap)) = min (nat M) cap" using M0 by linarith
    then show ?thesis
      using that raw_len raw_nth [OF that] max Some by (simp add: rep_def)
  qed
  have rep_frame: "rep ! b ! t = raw ! b ! t \<and> t < nat M
        \<and> (int t < lens ! b \<longrightarrow> int t < tot (durations ! b))
        \<and> (lens ! b \<le> int t \<longrightarrow> tot (durations ! b) \<le> int t)"
    if "b < B" "t < length (rep ! b)" for b t
  proof (cases mel_max_len)
    case None
    then show ?thesis
      using that raw_len raw_nth [OF that(1)] by (simp add: rep_def lens_def B_def)
  next
    case (Some cap)
    then have "t < cap" "t < nat M"
      using that raw_len raw_nth [OF that(1)] by (simp_all add: rep_def)
    then have "min (tot (durations ! b)) (int cap) \<le> int t \<longrightarrow> tot (durations ! b) \<le> int t"
      by linarith
    with \<open>t < cap\<close> \<open>t < nat M\<close> show ?thesis
      using that(1) raw_len Some by (simp add: rep_def lens_def B_def)
  qed
  have per_b: "lens ! b =
            (case mel_max_len of
               None \<Rightarrow> sum_list (map (adjust pace) (durations ! b))
             | Some cap \<Rightarrow> min (sum_list (map (adjust pace) (durations ! b))) (int cap))
          \<and> length (rep ! b) = nat (Max (set lens))
          \<and> (\<forall>t<length (rep ! b).
               (int t < lens ! b \<longrightarrow>
                  (\<exists>!j. j < L
                     \<and> sum_list (take j (map (adjust pace) (durations ! b))) \<le> int t
                     \<and> int t < sum_list (take (Suc j) (map (adjust pace) (durations ! b))))
                  \<and> (\<forall>j<L. sum_list (take j (map (adjust pace) (durations ! b))) \<le> int t
                          \<and> int t < sum_list (take (Suc j) (map (adjust pace) (durations ! b)))
                       \<longrightarrow> rep ! b ! t = enc_out ! b ! j))
               \<and> (lens ! b \<le> int t \<longrightarrow> rep ! b ! t = replicate D 0))"
    if b: "b < B" for b
  proof (intro conjI allI impI)
    show "lens ! b =
            (case mel_max_len of
               None \<Rightarrow> sum_list (map (adjust pace) (durations ! b))
             | Some cap \<Rightarrow> min (sum_list (map (adjust pace) (durations ! b))) (int cap))"
      by (rule lens_nth [OF b])
    show "length (rep ! b) = nat (Max (set lens))"
      by (rule rep_nth_len [OF b])
  next
    fix t assume t: "t < length (rep ! b)" "int t < lens ! b"
    from rep_frame [OF b t(1)] t(2) inside [OF b, of t]
    show "\<exists>!j. j < L
                     \<and> sum_list (take j (map (adjust pace) (durations ! b))) \<le> int t
                     \<and> int t < sum_list (take (Suc j) (map (adjust pace) (durations ! b)))"
      by blast
  next
    fix t j assume t: "t < length (rep ! b)" "int t < lens ! b" and j: "j < L"
      "sum_list (take j (map (adjust pace) (durations ! b))) \<le> int t
                          \<and> int t < sum_list (take (Suc j) (map (adjust pace) (durations ! b)))"
    from rep_frame [OF b t(1)] t(2) inside [OF b, of t] j
    show "rep ! b ! t = enc_out ! b ! j"
      by simp
  next
    fix t assume t: "t < length (rep ! b)" "lens ! b \<le> int t"
    from rep_frame [OF b t(1)] t(2) outside [OF b, of t]
    show "rep ! b ! t = replicate D 0"
      by simp
  qed
  have "regulate_len durations enc_out pace mel_max_len = Inr (rep, lens)
     \<and> length rep = length durations \<and> length lens = length durations
     \<and> (\<forall>b<length durations.
          lens ! b =
            (case mel_max_len of
               None \<Rightarrow> sum_list (map (adjust pace) (durations ! b))
             | Some cap \<Rightarrow> min (sum_list (map (adjust pace) (durations ! b))) (int cap))
          \<and> length (rep ! b) = nat (Max (set lens))
          \<and> (\<forall>t<length (rep ! b).
               (int t < lens ! b \<longrightarrow>
                  (\<exists>!j. j < L
                     \<and> sum_list (take j (map (adjust pace) (durations ! b))) \<le> int t
                     \<and> int t < sum_list (take (Suc j) (map (adjust pace) (durations ! b))))
                  \<and> (\<forall>j<L. sum_list (take j (map (adjust pace) (durations ! b))) \<le> int t
                          \<and> int t < sum_list (take (Suc j) (map (adjust pace) (durations ! b)))
                       \<longrightarrow> rep ! b ! t = enc_out ! b ! j))
               \<and> (lens ! b \<le> int t \<longrightarrow> rep ! b ! t = replicate D 0)))"
    using res rep_len lens_len per_b unfolding B_def
    by (intro conjI allI impI) blast+
  then show ?thesis by (intro exI)
qed

text \<open>
  The instance of C10 with two samples of output lengths 3 and 1, without a cap and with the
  cap 2: the second sample is padded with zero vectors.
\<close>

theorem regulate_len_frames_witness:
  "regulate_len [[2, 1], [0, 1]] [[[1, 2], [3, 4]], [[5, 6], [7, 8]]] 1 None =
       Inr ([[[1, 2], [1, 2], [3, 4]], [[7, 8], [0, 0], [0, 0]]], [3, 1])
   \<and> regulate_len [[2, 1], [0, 1]] [[[1, 2], [3, 4]], [[5, 6], [7, 8]]] 1 (Some 2) =
       Inr ([[[1, 2], [1, 2]], [[7, 8], [0, 0]]], [2, 1])"
proof -
  let ?durations = "[[2, 1], [0, 1 :: real]]"
  let ?enc_out = "[[[1, 2], [3, 4]], [[5, 6], [7, 8 :: real]]]"
  have pace: "(0 :: real) < 1" by simp
  have batch: "?durations \<noteq> []" "length ?enc_out = length ?durations" by simp_all
  have shape: "\<forall>b<length ?durations. length (?durations ! b) = 2 \<and> length (?enc_out ! b) = 2
                 \<and> (\<forall>v\<in>set (?enc_out ! b). length v = 2)"
    by (simp add: less_Suc_eq eval_nat_numeral)
  have nonneg: "\<forall>ds\<in>set ?durations. \<forall>d\<in>set ds. 0 \<le> d" by simp
  note frames = regulate_len_frames [OF pace batch shape nonneg]
  from frames [of None]
  have "\<exists>enc_rep dec_lens. regulate_len ?durations ?enc_out 1 None = Inr (enc_rep, dec_lens)
          \<and> length enc_rep = length ?durations"
    by blast
  moreover from frames [of "Some 2"]
  have "\<exists>enc_rep dec_lens. regulate_len ?durations ?enc_out 1 (Some 2) = Inr (enc_rep, dec_lens)
          \<and> length enc_rep = length ?durations"
    by blast
  moreover have "regulate_len ?durations ?enc_out 1 None =
       Inr ([[[1, 2], [1, 2], [3, 4]], [[7, 8], [0, 0], [0, 0]]], [3, 1])"
    by (simp add: regulate_defs)
  moreover have "regulate_len ?durations ?enc_out 1 (Some 2) =
       Inr ([[[1, 2], [1, 2]], [[7, 8], [0, 0]]], [2, 1])"
    by (simp add: regulate_defs)
  ultimately show ?thesis by simp
qed

section \<open>Properties of the interval averager\<close>

text \<open>
  C2, as the source computes it. For the single sample with per-token durations 3, 0, 2 and
  per-frame signal 1, 1, 1, 0, 5, \<^verbatim>\<open>average_pitch\<close> returns the per-token averages
  1, 0 and 5: the last token covers the frames 0 and 5, and the zero frame is counted
  neither in the sum nor in the number of frames.
\<close>

theorem average_pitch_worked_example:
  "average_pitch [[[1, 1, 1, 0, 5]]] [[3, 0, 2]] = Inr [[[Some 1, Some 0, Some 5]]]"
  by (simp add: average_pitch_def gather_def gathered_def cumsum_def pointwise3_def
      where_avg_def float_div_def)

text \<open>
  C2, as the specification words it, does not hold: on that input the result is not the
  list of averages 1, 0, 2.5.
\<close>

theorem average_pitch_claimed_example_fails:
  "average_pitch [[[1, 1, 1, 0, 5]]] [[3, 0, 2]] \<noteq> Inr [[[Some 1, Some 0, Some (5 / 2)]]]"
  by (simp add: average_pitch_def gather_def gathered_def cumsum_def pointwise3_def
      where_avg_def float_div_def)

subsection \<open>The contract\<close>

lemma gather_Inr:
  assumes "length index \<le> length src"
    and "\<forall>b<length index. \<forall>row\<in>set (src ! b). \<forall>i\<in>set (index ! b). 0 \<le> i \<and> i < int (length row)"
  shows "gather src index = Inr (gathered src index)"
proof -
  have "list_all (\<lambda>(chs, ix). list_all (\<lambda>row. list_all (\<lambda>i. 0 \<le> i \<and> i < int (length row)) ix) chs)
           (zip src index)"
    using assms by (auto simp: list_all_iff set_zip)
  then show ?thesis
    using assms(1) by (simp add: gather_def)
qed

lemma length_gathered [simp]: "length (gathered src index) = min (length src) (length index)"
  by (simp add: gathered_def)

lemma nth_gathered:
  assumes "b < length src" "b < length index" "c < length (src ! b)" "j < length (index ! b)"
  shows "length (gathered src index ! b) = length (src ! b)"
    and "length (gathered src index ! b ! c) = length (index ! b)"
    and "gathered src index ! b ! c ! j = src ! b ! c ! nat (index ! b ! j)"
  using assms by (simp_all add: gathered_def)

lemma nth_gathered_len:
  assumes "b < length src" "b < length index" 
  shows "length (gathered src index ! b) = length (src ! b)"
    and "c < length (src ! b) \<Longrightarrow> length (gathered src index ! b ! c) = length (index ! b)"
  using assms by (simp_all add: gathered_def)

lemma length_pointwise3 [simp]:
  "length (pointwise3 f xs ys) = min (length xs) (length ys)"
  by (simp add: pointwise3_def)

lemma nth_pointwise3:
  assumes "b < length xs" "b < length ys"
  shows "length (pointwise3 f xs ys ! b) = min (length (xs ! b)) (length (ys ! b))"
    and "c < length (xs ! b) \<Longrightarrow> c < length (ys ! b) \<Longrightarrow>
           length (pointwise3 f xs ys ! b ! c) = min (length (xs ! b ! c)) (length (ys ! b ! c))"
    and "c < length (xs ! b) \<Longrightarrow> c < length (ys ! b) \<Longrightarrow>
         j < length (xs ! b ! c) \<Longrightarrow> j < length (ys ! b ! c) \<Longrightarrow>
           pointwise3 f xs ys ! b ! c ! j = f (xs ! b ! c ! j) (ys ! b ! c ! j)"
  using assms by (simp_all add: pointwise3_def)

lemma sum_list_drop_zeros:
  fixes xs :: "real list"
  shows "sum_list (filter (\<lambda>x. x \<noteq> 0) xs) = sum_list xs"
  by (induction xs) simp_all

lemma count_nonzero:
  fixes xs :: "real list"
  shows "sum_list (map (\<lambda>x. if x \<noteq> 0 then 1 else 0) xs) = int (length (filter (\<lambda>x. x \<noteq> 0) xs))"
  by (induction xs) simp_all

lemma prefix_diff:
  fixes xs :: "'a::ab_group_add list"
  shows "sum_list (take (s + d) xs) - sum_list (take s xs) = sum_list (take d (drop s xs))"
  by (simp add: take_add)

lemma where_avg_eq:
  "where_avg s n = Some (if n = 0 then 0 else s / n)"
  by (simp add: where_avg_def float_div_def)

lemma entry_mean:
  fixes row :: "real list"
  assumes "s + d \<le> length row"
  shows "where_avg (((0 # cumsum row) ! (s + d)) - ((0 # cumsum row) ! s))
           (real_of_int (((0 # cumsum (map (\<lambda>x. if x \<noteq> 0 then 1 else 0) row)) ! (s + d))
                          - ((0 # cumsum (map (\<lambda>x. if x \<noteq> 0 then 1 else 0) row)) ! s)))
         = Some (interval_mean row s d)"
proof -
  let ?ind = "map (\<lambda>x. if x \<noteq> 0 then 1 else (0::int)) row"
  let ?seg = "take d (drop s row)"
  have pad: "(0 # cumsum xs) ! k = sum_list (take k xs)" if "k \<le> length xs"
    for xs :: "'b::monoid_add list" and k
    using that by (cases k) (simp_all add: nth_cumsum)
  have sums: "((0 # cumsum row) ! (s + d)) - ((0 # cumsum row) ! s) = sum_list ?seg"
    using assms by (simp add: pad prefix_diff)
  have "((0 # cumsum ?ind) ! (s + d)) - ((0 # cumsum ?ind) ! s) = sum_list (take d (drop s ?ind))"
    using assms by (simp add: pad prefix_diff)
  also have "take d (drop s ?ind) = map (\<lambda>x. if x \<noteq> 0 then 1 else 0) ?seg"
    by (simp add: take_map drop_map)
  finally have cnt: "((0 # cumsum ?ind) ! (s + d)) - ((0 # cumsum ?ind) ! s)
        = int (length (filter (\<lambda>x. x \<noteq> 0) ?seg))"
    by (simp add: count_nonzero)
  show ?thesis
    unfolding sums cnt where_avg_eq interval_mean_def Let_def
    by (simp add: sum_list_drop_zeros)
qed

lemma nonneg_prefix:
  fixes ds :: "int list"
  assumes "\<forall>d\<in>set ds. 0 \<le> d"
  shows "0 \<le> sum_list (take j ds)" and "sum_list (take j ds) \<le> sum_list ds"
proof -
  show "0 \<le> sum_list (take j ds)"
    using assms by (intro sum_list_nonneg) (auto dest: in_set_takeD)
  show "sum_list (take j ds) \<le> sum_list ds"
    using prefix_sum_mono [OF assms, of j "length ds"] by (cases "j \<le> length ds") simp_all
qed

lemma starts_nth:
  fixes ds :: "int list"
  assumes "j < length ds"
  shows "take (length (cumsum ds)) (0 # butlast (cumsum ds)) ! j = sum_list (take j ds)"
proof (cases j)
  case 0
  then show ?thesis using assms by simp
next
  case (Suc k)
  then have "k < length (butlast (cumsum ds))" using assms by simp
  then have "butlast (cumsum ds) ! k = cumsum ds ! k" by (rule nth_butlast)
  then show ?thesis using assms Suc by (simp add: nth_cumsum)
qed

lemma starts_length:
  fixes ds :: "int list"
  shows "length (take (length (cumsum ds)) (0 # butlast (cumsum ds))) = length ds"
  by (cases ds) simp_all

lemma starts_set:
  fixes ds :: "int list"
  assumes "i \<in> set (take (length (cumsum ds)) (0 # butlast (cumsum ds)))"
  shows "\<exists>j<length ds. i = sum_list (take j ds)"
proof -
  from assms obtain j where "j < length (take (length (cumsum ds)) (0 # butlast (cumsum ds)))"
    "i = take (length (cumsum ds)) (0 # butlast (cumsum ds)) ! j"
    by (auto simp: in_set_conv_nth)
  then show ?thesis
    using starts_nth [of j ds] by (auto simp: starts_length)
qed

lemma ends_set:
  fixes ds :: "int list"
  assumes "i \<in> set (cumsum ds)"
  shows "\<exists>j<length ds. i = sum_list (take (Suc j) ds)"
  using assms by (auto simp: in_set_conv_nth nth_cumsum)

text \<open>
  C3. For a signal of shape (batch, channels, frames) and non-negative integer durations
  whose sum, in each sample, does not exceed the number of frames (in particular when it
  equals it), \<^verbatim>\<open>average_pitch\<close> returns a result of shape (batch, channels, tokens). Each
  entry is a number (never the non-finite outcome of a division by zero): the arithmetic
  mean of the signal over the token's interval of frames, counting only the frames whose
  value is not zero. If every frame of the interval is zero, or the token has no frame, the
  entry is 0.
\<close>

theorem average_pitch_contract:
  assumes batch: "length durs = length pitch"
    and nonneg: "\<forall>ds\<in>set durs. \<forall>d\<in>set ds. 0 \<le> d"
    and sums: "\<forall>b<length durs. \<forall>row\<in>set (pitch ! b). sum_list (durs ! b) \<le> int (length row)"
  shows "\<exists>avg. average_pitch pitch durs = Inr avg
     \<and> length avg = length durs
     \<and> (\<forall>b<length durs. length (avg ! b) = length (pitch ! b)
          \<and> (\<forall>c<length (pitch ! b). length (avg ! b ! c) = length (durs ! b)
               \<and> (\<forall>j<length (durs ! b).
                    avg ! b ! c ! j =
                      Some (interval_mean (pitch ! b ! c)
                              (nat (sum_list (take j (durs ! b)))) (nat (durs ! b ! j)))
                    \<and> ((\<forall>x\<in>set (take (nat (durs ! b ! j))
                                   (drop (nat (sum_list (take j (durs ! b)))) (pitch ! b ! c))).
                            x = 0)
                         \<longrightarrow> avg ! b ! c ! j = Some 0))))"
proof -
  define ends where "ends = map cumsum durs"
  define starts where "starts = map (\<lambda>e. 0 # butlast e) ends"
  define dcs where "dcs = map2 (\<lambda>s e. take (length e) s) starts ends"
  define nc where
    "nc = map (map (\<lambda>row. (0::int) # cumsum (map (\<lambda>x. if x \<noteq> 0 then 1 else 0) row))) pitch"
  define pc where "pc = map (map (\<lambda>row. (0::real) # cumsum row)) pitch"
  define B where "B = length durs"
  have len: "length ends = B" "length dcs = B" "length nc = B" "length pc = B"
    using batch by (simp_all add: ends_def starts_def dcs_def nc_def pc_def B_def)
  have ends_b: "ends ! b = cumsum (durs ! b)" if "b < B" for b
    using that by (simp add: ends_def B_def)
  have dcs_b: "dcs ! b = take (length (cumsum (durs ! b))) (0 # butlast (cumsum (durs ! b)))"
    if "b < B" for b
    using that by (simp add: dcs_def starts_def ends_def B_def)
  have pc_b: "pc ! b = map (\<lambda>row. 0 # cumsum row) (pitch ! b)" if "b < B" for b
    using that batch by (simp add: pc_def B_def)
  have nc_b: "nc ! b = map (\<lambda>row. 0 # cumsum (map (\<lambda>x. if x \<noteq> 0 then 1 else 0) row)) (pitch ! b)"
    if "b < B" for b
    using that batch by (simp add: nc_def B_def)
  have nn: "\<forall>d\<in>set (durs ! b). 0 \<le> d" if "b < B" for b
    using nonneg that nth_mem [of b durs] by (auto simp: B_def)
  have bound: "0 \<le> sum_list (take j (durs ! b)) \<and> sum_list (take j (durs ! b)) \<le> int (length row)"
    if "b < B" "row \<in> set (pitch ! b)" for b j row
    using nonneg_prefix [OF nn [OF that(1)], of j] sums that by (fastforce simp: B_def)
  have in_range_e: "\<forall>b<length ends. \<forall>r\<in>set (src ! b). \<forall>i\<in>set (ends ! b). 0 \<le> i \<and> i < int (length r)"
    if "\<And>b. b < B \<Longrightarrow> \<exists>f. src ! b = map f (pitch ! b) \<and> (\<forall>row. length (f row) = Suc (length row))"
    for src :: "'x list list list"
  proof (intro allI impI ballI)
    fix b r i assume b: "b < length ends" and r: "r \<in> set (src ! b)" and i: "i \<in> set (ends ! b)"
    from b have bB: "b < B" by (simp add: len)
    from that [OF bB] r obtain row where row: "row \<in> set (pitch ! b)" "length r = Suc (length row)"
      by auto
    from i ends_set [of i "durs ! b"] obtain j where "i = sum_list (take (Suc j) (durs ! b))"
      by (auto simp: ends_b [OF bB])
    with bound [OF bB row(1), of "Suc j"] row(2) show "0 \<le> i \<and> i < int (length r)" by simp
  qed
  have in_range_s: "\<forall>b<length dcs. \<forall>r\<in>set (src ! b). \<forall>i\<in>set (dcs ! b). 0 \<le> i \<and> i < int (length r)"
    if "\<And>b. b < B \<Longrightarrow> \<exists>f. src ! b = map f (pitch ! b) \<and> (\<forall>row. length (f row) = Suc (length row))"
    for src :: "'x list list list"
  proof (intro allI impI ballI)
    fix b r i assume b: "b < length dcs" and r: "r \<in> set (src ! b)" and i: "i \<in> set (dcs ! b)"
    from b have bB: "b < B" by (simp add: len)
    from that [OF bB] r obtain row where row: "row \<in> set (pitch ! b)" "length r = Suc (length row)"
      by auto
    from i starts_set [of i "durs ! b"] obtain j where "i = sum_list (take j (durs ! b))"
      by (auto simp: dcs_b [OF bB])
    with bound [OF bB row(1), of j] row(2) show "0 \<le> i \<and> i < int (length r)" by simp
  qed
  have pc_shape: "\<exists>f. pc ! b = map f (pitch ! b) \<and> (\<forall>row. length (f row) = Suc (length row))"
    if "b < B" for b
    using pc_b [OF that] by (intro exI [of _ "\<lambda>row. 0 # cumsum row"]) simp
  have nc_shape: "\<exists>f. nc ! b = map f (pitch ! b) \<and> (\<forall>row. length (f row) = Suc (length row))"
    if "b < B" for b
    using nc_b [OF that]
    by (intro exI [of _ "\<lambda>row. 0 # cumsum (map (\<lambda>x. if x \<noteq> 0 then 1 else 0) row)"]) simp
  have g1: "gather pc ends = Inr (gathered pc ends)"
    using in_range_e [of pc, OF pc_shape] by (intro gather_Inr) (simp_all add: len)
  have g2: "gather pc dcs = Inr (gathered pc dcs)"
    using in_range_s [of pc, OF pc_shape] by (intro gather_Inr) (simp_all add: len)
  have g3: "gather nc ends = Inr (gathered nc ends)"
    using in_range_e [of nc, OF nc_shape] by (intro gather_Inr) (simp_all add: len)
  have g4: "gather nc dcs = Inr (gathered nc dcs)"
    using in_range_s [of nc, OF nc_shape] by (intro gather_Inr) (simp_all add: len)
  define avg where
    "avg = pointwise3 where_avg
             (pointwise3 (\<lambda>a b. a - b) (gathered pc ends) (gathered pc dcs))
             (pointwise3 (\<lambda>a b. real_of_int (a - b)) (gathered nc ends) (gathered nc dcs))"
  have res: "average_pitch pitch durs = Inr avg"
    unfolding average_pitch_def Let_def
    by (simp only: ends_def [symmetric] starts_def [symmetric] dcs_def [symmetric]
        nc_def [symmetric] pc_def [symmetric] g1 g2 g3 g4 sum.case avg_def)
  have avg_len: "length avg = length durs"
    by (simp add: avg_def len B_def)
  have per_b: "length (avg ! b) = length (pitch ! b)
          \<and> (\<forall>c<length (pitch ! b). length (avg ! b ! c) = length (durs ! b)
               \<and> (\<forall>j<length (durs ! b).
                    avg ! b ! c ! j =
                      Some (interval_mean (pitch ! b ! c)
                              (nat (sum_list (take j (durs ! b)))) (nat (durs ! b ! j)))
                    \<and> ((\<forall>x\<in>set (take (nat (durs ! b ! j))
                                   (drop (nat (sum_list (take j (durs ! b)))) (pitch ! b ! c))).
                            x = 0)
                         \<longrightarrow> avg ! b ! c ! j = Some 0)))"
    if b: "b < B" for b
  proof (intro conjI allI impI)
    have lens_b: "length (pc ! b) = length (pitch ! b)" "length (nc ! b) = length (pitch ! b)"
      "length (ends ! b) = length (durs ! b)" "length (dcs ! b) = length (durs ! b)"
      using b by (simp_all add: pc_b nc_b ends_b dcs_b starts_length)
    show "length (avg ! b) = length (pitch ! b)"
      using b by (simp add: avg_def nth_pointwise3 len nth_gathered_len lens_b)
    fix c assume c: "c < length (pitch ! b)"
    show "length (avg ! b ! c) = length (durs ! b)"
      using b c by (simp add: avg_def nth_pointwise3 len nth_gathered_len lens_b)
    fix j assume j: "j < length (durs ! b)"
    let ?row = "pitch ! b ! c"
    let ?s = "nat (sum_list (take j (durs ! b)))"
    let ?d = "nat (durs ! b ! j)"
    have rowin: "?row \<in> set (pitch ! b)" using c by simp
    have dj: "0 \<le> durs ! b ! j" using nn [OF b] j by simp
    have sj: "0 \<le> sum_list (take j (durs ! b))" using bound [OF b rowin] by simp
    have e_idx: "nat (ends ! b ! j) = ?s + ?d"
      using j dj sj by (simp add: ends_b [OF b] nth_cumsum take_Suc_conv_app_nth nat_add_distrib)
    have "dcs ! b ! j = sum_list (take j (durs ! b))"
      unfolding dcs_b [OF b] using j by (rule starts_nth)
    then have s_idx: "nat (dcs ! b ! j) = ?s" by simp
    have "int (?s + ?d) = sum_list (take (Suc j) (durs ! b))"
      using j dj sj by (simp add: take_Suc_conv_app_nth)
    with bound [OF b rowin, of "Suc j"] have fits: "?s + ?d \<le> length ?row" by linarith
    have "avg ! b ! c ! j =
            where_avg ((pc ! b ! c ! nat (ends ! b ! j)) - (pc ! b ! c ! nat (dcs ! b ! j)))
              (real_of_int ((nc ! b ! c ! nat (ends ! b ! j)) - (nc ! b ! c ! nat (dcs ! b ! j))))"
      using b c j
      by (simp add: avg_def nth_pointwise3 len nth_gathered_len nth_gathered(3) lens_b)
    also have "\<dots> = Some (interval_mean ?row ?s ?d)"
      unfolding e_idx s_idx using c entry_mean [OF fits]
      by (simp add: pc_b [OF b] nc_b [OF b])
    finally show entry: "avg ! b ! c ! j = Some (interval_mean ?row ?s ?d)" .
    assume "\<forall>x\<in>set (take ?d (drop ?s ?row)). x = 0"
    then have "filter (\<lambda>x. x \<noteq> 0) (take ?d (drop ?s ?row)) = []"
      by (simp add: filter_empty_conv)
    then show "avg ! b ! c ! j = Some 0"
      unfolding entry by (simp add: interval_mean_def)
  qed
  have "average_pitch pitch durs = Inr avg
     \<and> length avg = length durs
     \<and> (\<forall>b<length durs. length (avg ! b) = length (pitch ! b)
          \<and> (\<forall>c<length (pitch ! b). length (avg ! b ! c) = length (durs ! b)
               \<and> (\<forall>j<length (durs ! b).
                    avg ! b ! c ! j =
                      Some (interval_mean (pitch ! b ! c)
                              (nat (sum_list (take j (durs ! b)))) (nat (durs ! b ! j)))
                    \<and> ((\<forall>x\<in>set (take (nat (durs ! b ! j))
                                   (drop (nat (sum_list (take j (durs ! b)))) (pitch ! b ! c))).
                            x = 0)
                         \<longrightarrow> avg ! b ! c ! j = Some 0))))"
    using res avg_len per_b unfolding B_def by (intro conjI allI impI) blast+
  then show ?thesis by (intro exI)
qed

text \<open>
  The instance of C3 with two channels: an interval with a zero frame, a token of duration
  0, and an interval of zero frames only.
\<close>

theorem average_pitch_contract_witness:
  "average_pitch [[[1, 1, 1, 0, 5], [0, 0, 0, 2, 4]]] [[3, 0, 2]] =
     Inr [[[Some 1, Some 0, Some 5], [Some 0, Some 0, Some 3]]]
   \<and> interval_mean [1, 1, 1, 0, 5] 3 2 = 5
   \<and> interval_mean [0, 0, 0, 2, 4] 0 3 = 0"
proof -
  let ?pitch = "[[[1, 1, 1, 0, 5], [0, 0, 0, 2, 4 :: real]]]"
  let ?durs = "[[3, 0, 2 :: int]]"
  have batch: "length ?durs = length ?pitch" by simp
  have nonneg: "\<forall>ds\<in>set ?durs. \<forall>d\<in>set ds. 0 \<le> d" by simp
  have sums: "\<forall>b<length ?durs. \<forall>row\<in>set (?pitch ! b). sum_list (?durs ! b) \<le> int (length row)"
    by simp
  from average_pitch_contract [OF batch nonneg sums]
  have "\<exists>avg. average_pitch ?pitch ?durs = Inr avg \<and> length avg = length ?durs"
    by blast
  moreover have "average_pitch ?pitch ?durs =
      Inr [[[Some 1, Some 0, Some 5], [Some 0, Some 0, Some 3]]]"
    by (simp add: average_pitch_def gather_def gathered_def cumsum_def pointwise3_def
        where_avg_def float_div_def)
  ultimately show ?thesis
    by (simp add: interval_mean_def)
qed

section \<open>Properties of inference\<close>

lemma predict_dur_range:
  assumes "1 / 4 \<le> max_duration" and "d \<in> set (predict_dur m enc_out max_duration)"
  shows "1 / 4 \<le> d \<and> d \<le> max_duration"
proof -
  from assms(2) obtain x
    where d: "d = torch_clamp_min (torch_clamp (exp x - 1) 0 max_duration) (1 / 4)"
    by (auto simp: predict_dur_def Let_def)
  show ?thesis
    using assms(1) unfolding d torch_clamp_def torch_clamp_min_def by linarith
qed

lemma predict_pitch_range:
  assumes "p \<in> set (predict_pitch m enc_out)"
  shows "- 3 \<le> p \<and> p \<le> 3"
  using assms by (auto simp: predict_pitch_def torch_clamp_def)

lemma infer_using_vals_fresh:
  "infer_using_vals m enc_out max_duration None None None None None =
     Inr \<lparr>out_dur_pred = predict_dur m enc_out max_duration,
          out_pitch_pred = predict_pitch m enc_out,
          out_energy_pred =
            energy_predictor m (add_pitch_emb m enc_out (predict_pitch m enc_out)),
          out_start_index = - 1, out_end_index = - 1\<rparr>"
  by (simp add: infer_using_vals_def Let_def)

lemma py_get_in_set: "py_get xs i = Inr v \<Longrightarrow> v \<in> set xs"
  by (auto simp: py_get_def wrap_index_def split: option.splits if_splits)

lemma py_set_subset: "py_set xs i v = Inr ys \<Longrightarrow> set ys \<subseteq> insert v (set xs)"
  by (auto simp: py_set_def split: option.splits dest: set_update_subset_insert [THEN subsetD])

lemma splice_subset:
  "splice idx pred_np existing_np = Inr res \<Longrightarrow> set res \<subseteq> set pred_np \<union> set existing_np"
proof (induction idx arbitrary: pred_np)
  case Nil
  then show ?case by auto
next
  case (Cons i idx)
  from Cons.prems obtain v pred' where v: "py_get existing_np i = Inr v"
    and p: "py_set pred_np i v = Inr pred'" and r: "splice idx pred' existing_np = Inr res"
    by (auto split: sum.splits)
  from Cons.IH [OF r] py_set_subset [OF p] py_get_in_set [OF v] show ?case by auto
qed

lemma splice_both_subset:
  assumes "splice_both len_old start_index end_index pred_np existing_np = Inr res"
  shows "set res \<subseteq> set pred_np \<union> set existing_np"
proof -
  from assms obtain mid where
    "splice (front_indices start_index) pred_np existing_np = Inr mid"
    "splice (back_indices len_old end_index) mid existing_np = Inr res"
    by (auto simp: splice_both_def split: sum.splits)
  from splice_subset [OF this(1)] splice_subset [OF this(2)] show ?thesis by auto
qed

lemma infer_using_vals_own_arrays:
  assumes res: "infer_using_vals m enc_out max_duration dur_existing pitch_existing
                  energy_existing old_sequence new_sequence = Inr r"
    and own: "dur_existing = None \<or> pitch_existing = None \<or> old_sequence \<noteq> None"
  shows "set (out_dur_pred r) \<subseteq>
           set (predict_dur m enc_out max_duration)
             \<union> (case dur_existing of None \<Rightarrow> {} | Some a \<Rightarrow> set a)"
    and "set (out_pitch_pred r) \<subseteq>
           set (predict_pitch m enc_out)
             \<union> (case pitch_existing of None \<Rightarrow> {} | Some a \<Rightarrow> set a)"
  using res own
  by (auto simp: infer_using_vals_def Let_def
      split: option.splits sum.splits if_splits prod.splits
      dest!: splice_both_subset)

text \<open>
  C7. The predictions \<^verbatim>\<open>infer_using_vals\<close> computes itself are clamped: for every
  \<open>max_duration \<ge> 0.25\<close>, every predicted duration lies in \<open>[0.25, max_duration]\<close> and every
  predicted pitch lies in \<open>[-3, 3]\<close>. These are the arrays of the branch taken when no
  existing duration or pitch is supplied, or an old sequence is supplied: whenever a call
  on that branch returns, every entry of the returned duration and pitch arrays is within
  these intervals or is an existing value that the splice has put there. The fully
  self-predicted call always returns, with both arrays within the intervals.
\<close>

theorem inference_clamping:
  assumes "1 / 4 \<le> max_duration"
  shows "(\<forall>d \<in> set (predict_dur m enc_out max_duration). 1 / 4 \<le> d \<and> d \<le> max_duration)
       \<and> (\<forall>p \<in> set (predict_pitch m enc_out). - 3 \<le> p \<and> p \<le> 3)
       \<and> (\<forall>dur_existing pitch_existing energy_existing old_sequence new_sequence r.
            (dur_existing = None \<or> pitch_existing = None \<or> old_sequence \<noteq> None) \<longrightarrow>
            infer_using_vals m enc_out max_duration dur_existing pitch_existing
              energy_existing old_sequence new_sequence = Inr r \<longrightarrow>
              (\<forall>d \<in> set (out_dur_pred r).
                 (1 / 4 \<le> d \<and> d \<le> max_duration) \<or> (\<exists>a. dur_existing = Some a \<and> d \<in> set a))
              \<and> (\<forall>p \<in> set (out_pitch_pred r).
                   (- 3 \<le> p \<and> p \<le> 3) \<or> (\<exists>a. pitch_existing = Some a \<and> p \<in> set a)))
       \<and> (\<exists>r. infer_using_vals m enc_out max_duration None None None None None = Inr r
              \<and> (\<forall>d \<in> set (out_dur_pred r). 1 / 4 \<le> d \<and> d \<le> max_duration)
              \<and> (\<forall>p \<in> set (out_pitch_pred r). - 3 \<le> p \<and> p \<le> 3))"
proof (intro conjI allI impI ballI)
  fix d assume "d \<in> set (predict_dur m enc_out max_duration)"
  with assms predict_dur_range [of max_duration d m enc_out]
  show "1 / 4 \<le> d" "d \<le> max_duration" by simp_all
next
  fix p assume "p \<in> set (predict_pitch m enc_out)"
  with predict_pitch_range [of p m enc_out] show "- 3 \<le> p" "p \<le> 3" by simp_all
next
  fix dur_existing pitch_existing energy_existing old_sequence new_sequence r d
  assume own: "dur_existing = None \<or> pitch_existing = None \<or> old_sequence \<noteq> None"
    and res: "infer_using_vals m enc_out max_duration dur_existing pitch_existing
                energy_existing old_sequence new_sequence = Inr r"
    and d: "d \<in> set (out_dur_pred r)"
  from infer_using_vals_own_arrays(1) [OF res own] d
  have "d \<in> set (predict_dur m enc_out max_duration) \<or> (\<exists>a. dur_existing = Some a \<and> d \<in> set a)"
    by (auto split: option.splits)
  with assms predict_dur_range [of max_duration d m enc_out]
  show "(1 / 4 \<le> d \<and> d \<le> max_duration) \<or> (\<exists>a. dur_existing = Some a \<and> d \<in> set a)"
    by blast
next
  fix dur_existing pitch_existing energy_existing old_sequence new_sequence r p
  assume own: "dur_existing = None \<or> pitch_existing = None \<or> old_sequence \<noteq> None"
    and res: "infer_using_vals m enc_out max_duration dur_existing pitch_existing
                energy_existing old_sequence new_sequence = Inr r"
    and p: "p \<in> set (out_pitch_pred r)"
  from infer_using_vals_own_arrays(2) [OF res own] p
  have "p \<in> set (predict_pitch m enc_out) \<or> (\<exists>a. pitch_existing = Some a \<and> p \<in> set a)"
    by (auto split: option.splits)
  with predict_pitch_range [of p m enc_out]
  show "(- 3 \<le> p \<and> p \<le> 3) \<or> (\<exists>a. pitch_existing = Some a \<and> p \<in> set a)"
    by blast
next
  show "\<exists>r. infer_using_vals m enc_out max_duration None None None None None = Inr r
              \<and> (\<forall>d \<in> set (out_dur_pred r). 1 / 4 \<le> d \<and> d \<le> max_duration)
              \<and> (\<forall>p \<in> set (out_pitch_pred r). - 3 \<le> p \<and> p \<le> 3)"
    using assms predict_dur_range [of max_duration _ m enc_out]
      predict_pitch_range [of _ m enc_out]
    by (simp add: infer_using_vals_fresh)
qed

text \<open>
  The instance of C7 with \<open>max_duration = 75\<close> and two tokens: the raw durations
  \<open>exp 0 - 1\<close> and \<open>exp (- 1) - 1\<close> are raised to 0.25, the raw pitches 5 and -5 are cut to
  3 and -3.
\<close>

theorem inference_clamping_witness:
  "predict_dur (const_modules [0, - 1] [5, - 5] [0, 0]) () 75 = [1 / 4, 1 / 4]
   \<and> predict_pitch (const_modules [0, - 1] [5, - 5] [0, 0]) () = [3, - 3]
   \<and> list_all (\<lambda>d. 1 / 4 \<le> d \<and> d \<le> 75)
        (predict_dur (const_modules [0, - 1] [5, - 5] [0, 0]) () 75)
   \<and> list_all (\<lambda>p. - 3 \<le> p \<and> p \<le> 3)
        (predict_pitch (const_modules [0, - 1] [5, - 5] [0, 0]) ())
   \<and> infer_using_vals (const_modules [0, - 1] [5, - 5] [0, 0]) () 75 None None None None None =
        Inr \<lparr>out_dur_pred = [1 / 4, 1 / 4], out_pitch_pred = [3, - 3],
             out_energy_pred = [0, 0], out_start_index = - 1, out_end_index = - 1\<rparr>"
proof -
  have bound: "(1 / 4 :: real) \<le> 75" by simp
  from inference_clamping [OF bound, of "const_modules [0, - 1] [5, - 5] [0, 0]" "()"]
  show ?thesis
    by (simp add: infer_using_vals_fresh predict_dur_def predict_pitch_def const_modules_def
        torch_clamp_def torch_clamp_min_def)
qed

lemmas eval_defs =
  infer_using_vals_def splice_bounds_def first_change.simps predict_dur_def predict_pitch_def
  torch_clamp_def torch_clamp_min_def splice_both_def front_indices_def back_indices_def
  py_get_def py_set_def wrap_index_def infer_advanced_def use_pitch_data_def present_def
  const_modules_def Let_def eval_nat_numeral

subsection \<open>Splice bounds of a single edit\<close>

lemma length_four:
  assumes "length xs = 4"
  obtains x0 x1 x2 x3 where "xs = [x0, x1, x2, x3]"
  using assms by (auto simp: eval_nat_numeral length_Suc_conv)

lemma splice_bounds_single_edit:
  assumes "b \<noteq> x"
  shows "splice_bounds [a, b, c, d] [a, x, c, d] = Inr (Some 0, Some 2)"
  using assms by (simp add: splice_bounds_def first_change.simps eval_nat_numeral)

text \<open>
  C1, as the source computes it. For the old token sequence \<open>[a, b, c, d]\<close> and the new
  sequence \<open>[a, x, c, d]\<close> with pairwise distinct ids, and four-entry arrays of existing and of
  predicted values, \<^verbatim>\<open>infer_using_vals\<close> returns start index 0 and end index 2 (the first
  position of the unchanged tail). After splicing, positions 0, 2 and 3 of the duration and
  pitch arrays hold the existing values and position 1 holds the fresh prediction.
\<close>

theorem splice_single_edit:
  assumes "distinct [a, b, c, d, x]"
    and "length (duration_predictor m enc_out) = 4"
    and "length (pitch_predictor m enc_out) = 4"
    and "\<forall>enc. length (energy_predictor m enc) = 4"
    and "length dur_existing = 4"
    and "length pitch_existing = 4"
    and "length energy_existing = 4"
  shows "\<exists>r. infer_using_vals m enc_out max_duration (Some dur_existing) (Some pitch_existing)
               (Some energy_existing) (Some [a, b, c, d]) (Some [a, x, c, d]) = Inr r
           \<and> out_start_index r = 0 \<and> out_end_index r = 2
           \<and> out_dur_pred r =
               [dur_existing ! 0, predict_dur m enc_out max_duration ! 1,
                dur_existing ! 2, dur_existing ! 3]
           \<and> out_pitch_pred r =
               [pitch_existing ! 0, predict_pitch m enc_out ! 1,
                pitch_existing ! 2, pitch_existing ! 3]"
proof -
  from assms(1) have bx: "b \<noteq> x" by simp
  obtain d0 d1 d2 d3 where de: "dur_existing = [d0, d1, d2, d3]"
    using assms(5) by (rule length_four)
  obtain p0 p1 p2 p3 where pe: "pitch_existing = [p0, p1, p2, p3]"
    using assms(6) by (rule length_four)
  obtain e0 e1 e2 e3 where ee: "energy_existing = [e0, e1, e2, e3]"
    using assms(7) by (rule length_four)
  have "length (predict_dur m enc_out max_duration) = 4"
    using assms(2) by (simp add: predict_dur_def Let_def)
  then obtain f0 f1 f2 f3 where fd: "predict_dur m enc_out max_duration = [f0, f1, f2, f3]"
    by (rule length_four)
  have "length (predict_pitch m enc_out) = 4"
    using assms(3) by (simp add: predict_pitch_def)
  then obtain g0 g1 g2 g3 where fp: "predict_pitch m enc_out = [g0, g1, g2, g3]"
    by (rule length_four)
  have "length (energy_predictor m (add_pitch_emb m enc_out [p0, g1, p2, p3])) = 4"
    using assms(4) by simp
  then obtain h0 h1 h2 h3
    where fe: "energy_predictor m (add_pitch_emb m enc_out [p0, g1, p2, p3]) = [h0, h1, h2, h3]"
    by (rule length_four)
  show ?thesis
    unfolding infer_using_vals_def
    by (simp add: splice_bounds_single_edit [OF bx] de pe ee fd fp fe Let_def splice_both_def
        front_indices_def back_indices_def py_get_def py_set_def wrap_index_def eval_nat_numeral)
qed

text \<open>
  The instance of C1 with the token ids 1, 2, 3, 4 and the replacement 5, evaluated: the
  predicted duration is 0.25 at every position, the predicted pitch is 3, -3, 1, 0.
\<close>

theorem splice_single_edit_witness:
  "infer_using_vals (const_modules [0, 0, 0, 0] [5, - 5, 1, 0] [7, 7, 7, 7]) () 75
        (Some [10, 20, 30, 40]) (Some [11, 21, 31, 41]) (Some [12, 22, 32, 42])
        (Some [1, 2, 3, 4]) (Some [1, 5, 3, 4]) =
       Inr \<lparr>out_dur_pred = [10, 1 / 4, 30, 40], out_pitch_pred = [11, - 3, 31, 41],
            out_energy_pred = [12, 7, 32, 42], out_start_index = 0, out_end_index = 2\<rparr>"
proof -
  let ?m = "const_modules [0, 0, 0, 0] [5, - 5, 1, 0] [7, 7, 7, 7]"
  have ids: "distinct [1, 2, 3, 4, 5 :: int]" by simp
  have fresh: "length (duration_predictor ?m ()) = 4" "length (pitch_predictor ?m ()) = 4"
    "\<forall>enc. length (energy_predictor ?m enc) = 4"
    by (simp_all add: const_modules_def)
  have existing: "length [10, 20, 30, 40 :: real] = 4" "length [11, 21, 31, 41 :: real] = 4"
    "length [12, 22, 32, 42 :: real] = 4"
    by simp_all
  from splice_single_edit [OF ids fresh existing, of 75] show ?thesis
    by (simp add: eval_defs)
qed

text \<open>
  C1, as the specification words it, does not hold. On the same input no result has end
  index 3, and no result keeps the fresh predictions at position 2.
\<close>

theorem splice_claimed_bounds_fail:
  "\<not> (\<exists>r. infer_using_vals (const_modules [0, 0, 0, 0] [5, - 5, 1, 0] [7, 7, 7, 7]) () 75
          (Some [10, 20, 30, 40]) (Some [11, 21, 31, 41]) (Some [12, 22, 32, 42])
          (Some [1, 2, 3, 4]) (Some [1, 5, 3, 4]) = Inr r
        \<and> out_end_index r = 3)
   \<and> \<not> (\<exists>r. infer_using_vals (const_modules [0, 0, 0, 0] [5, - 5, 1, 0] [7, 7, 7, 7]) () 75
          (Some [10, 20, 30, 40]) (Some [11, 21, 31, 41]) (Some [12, 22, 32, 42])
          (Some [1, 2, 3, 4]) (Some [1, 5, 3, 4]) = Inr r
        \<and> out_dur_pred r ! 2 =
            predict_dur (const_modules [0, 0, 0, 0] [5, - 5, 1, 0] [7, 7, 7, 7]) () 75 ! 2
        \<and> out_pitch_pred r ! 2 =
            predict_pitch (const_modules [0, 0, 0, 0] [5, - 5, 1, 0] [7, 7, 7, 7]) () ! 2)"
  by (simp add: eval_defs)

subsection \<open>Side data in \<^verbatim>\<open>infer_advanced\<close>\<close>

lemma use_pitch_data_iff:
  "use_pitch_data pitch_data \<longleftrightarrow>
     (\<exists>p d e. pitch_data = Some (Some p, Some d, Some e) \<and> p \<noteq> [] \<and> d \<noteq> [] \<and> e \<noteq> [])"
  by (cases pitch_data) (auto simp: use_pitch_data_def present_def)

text \<open>
  C9. \<^verbatim>\<open>infer_advanced\<close> uses the supplied bundle only if its three arrays are all present and
  non-empty: if the bundle is missing, or one of its arrays is missing or empty, the call is
  the fully self-predicted call (no existing values, no old sequence), whose result holds
  the clamped predictions and no splice bounds.
\<close>

theorem side_data_all_or_nothing:
  assumes "pitch_data = None \<or>
           (\<exists>p d e. pitch_data = Some (p, d, e) \<and>
              (p = None \<or> p = Some [] \<or> d = None \<or> d = Some [] \<or> e = None \<or> e = Some []))"
  shows "infer_advanced m inputs speaker_i pitch_data max_duration old_sequence =
           infer_using_vals m (encoder m inputs speaker_i) max_duration None None None None None
       \<and> infer_advanced m inputs speaker_i pitch_data max_duration old_sequence =
           Inr \<lparr>out_dur_pred = predict_dur m (encoder m inputs speaker_i) max_duration,
                out_pitch_pred = predict_pitch m (encoder m inputs speaker_i),
                out_energy_pred =
                  energy_predictor m
                    (add_pitch_emb m (encoder m inputs speaker_i)
                       (predict_pitch m (encoder m inputs speaker_i))),
                out_start_index = - 1, out_end_index = - 1\<rparr>"
proof -
  from assms have "\<not> use_pitch_data pitch_data"
    unfolding use_pitch_data_iff by auto
  then show ?thesis
    by (simp add: infer_advanced_def Let_def infer_using_vals_fresh)
qed

text \<open>
  The instance of C9 with an empty duration array: the old sequence and the two other arrays
  are ignored.
\<close>

theorem side_data_all_or_nothing_witness:
  "infer_advanced (const_modules [0, 0, 0, 0] [5, - 5, 1, 0] [7, 7, 7, 7]) [1, 5, 3, 4] None
      (Some (Some [11, 21, 31, 41], Some [], Some [12, 22, 32, 42])) 75 (Some [1, 2, 3, 4]) =
     Inr \<lparr>out_dur_pred = [1 / 4, 1 / 4, 1 / 4, 1 / 4], out_pitch_pred = [3, - 3, 1, 0],
          out_energy_pred = [7, 7, 7, 7], out_start_index = - 1, out_end_index = - 1\<rparr>"
proof -
  let ?data = "Some (Some [11, 21, 31, 41], Some [], Some [12, 22, 32, 42 :: real])"
  have incomplete: "?data = None \<or>
           (\<exists>p d e. ?data = Some (p, d, e) \<and>
              (p = None \<or> p = Some [] \<or> d = None \<or> d = Some [] \<or> e = None \<or> e = Some []))"
    by simp
  from side_data_all_or_nothing [OF incomplete,
      of "const_modules [0, 0, 0, 0] [5, - 5, 1, 0] [7, 7, 7, 7]" "[1, 5, 3, 4]" None 75
        "Some [1, 2, 3, 4]"]
  show ?thesis
    by (simp add: eval_defs)
qed



section \<open>Properties of the training pass\<close>

lemma torch_eq_same_length:
  "length xs = length ys \<Longrightarrow> torch_eq xs ys = Inr (map2 (\<lambda>x y. x = y) xs ys)"
  by (simp add: torch_eq_def)

lemma list_all_map2_eq:
  "length xs = length ys \<Longrightarrow>
     list_all (\<lambda>b. b) (map2 (\<lambda>x y. x = y) xs ys) \<longleftrightarrow> (\<forall>i<length xs. xs ! i = ys ! i)"
  by (auto simp: list_all_length)

text \<open>
  C6. With one target length per sample, the duration check of the training pass aborts
  with an assertion failure exactly when some sample's target durations (the sums of the
  hard alignment over the frames) do not add up to that sample's target length; when every
  sample's sum equals its length the check passes and the durations are returned.
\<close>

theorem duration_sum_check:
  assumes "length mel_lens = length attn_hard"
  shows "forward_dur_tgt attn_hard mel_lens =
           (if \<exists>b<length attn_hard.
                 sum_list (sum_frames (attn_hard ! b)) \<noteq> real_of_int (mel_lens ! b)
            then Inl AssertionError
            else Inr (map sum_frames attn_hard))"
  using assms
  by (auto simp: forward_dur_tgt_def Let_def torch_eq_same_length list_all_map2_eq)

text \<open>
  The instance of C6 with one sample of three frames aligned to two tokens, checked against
  the target lengths 3 and 4.
\<close>

theorem duration_sum_check_witness:
  "forward_dur_tgt [[[1, 0], [1, 0], [0, 1]]] [3] = Inr [[2, 1]]
   \<and> forward_dur_tgt [[[1, 0], [1, 0], [0, 1]]] [4] = Inl AssertionError"
proof -
  let ?attn_hard = "[[[1, 0], [1, 0], [0, 1 :: real]]]"
  have batch: "length [3 :: int] = length ?attn_hard" "length [4 :: int] = length ?attn_hard"
    by simp_all
  from duration_sum_check [OF batch(1)] duration_sum_check [OF batch(2)] show ?thesis
    by (simp add: sum_frames_def transpose.simps)
qed

end
